theory Spec2Isabelle
  imports Main "HOL-Library.Char_ord" "HOL-Library.List_Lexorder"
begin

section \<open>Playground infrastructure helper: data model\<close>

text \<open>
  A shallow embedding of \<^verbatim>\<open>playground/infrastructure/helper.py\<close>. Python exceptions are
  values of the type \<open>error\<close>; a function that may raise returns \<open>error + 'a\<close> with
  \<open>Inl\<close> for the exception. Python names that start with an underscore lose it
  (\<^verbatim>\<open>_check_no_nested\<close> is \<open>check_no_nested\<close>), since an Isabelle name starts with a letter.
\<close>

datatype error =
    NestedSubdirs "string list" "string list"
      \<comment> \<open>the \<^verbatim>\<open>ValueError\<close> of \<^verbatim>\<open>_check_no_nested\<close>: dir2 is a subdirectory of dir1\<close>
  | ValueError string
  | KeyError string
  | TypeError string
  | FileNotFoundError string
  | ValidationException string
  | AttributeError string
  | YAMLError
  | RpcError string

text \<open>
  The values a YAML document loads to, as far as the tag schema uses them: Python's
  \<^verbatim>\<open>None\<close>, booleans, integers, strings, lists and dictionaries with string keys
  (the association list holds the items of the dictionary in insertion order).
\<close>

datatype yaml =
    YNull
  | YBool bool
  | YInt int
  | YStr string
  | YList "yaml list"
  | YMap "(string \<times> yaml) list"

text \<open>\<^verbatim>\<open>d.get(key)\<close>: the value, or \<^verbatim>\<open>None\<close> for a missing key.\<close>

definition dict_get :: "(string \<times> yaml) list \<Rightarrow> string \<Rightarrow> yaml" where
  "dict_get d k = (case map_of d k of None \<Rightarrow> YNull | Some v \<Rightarrow> v)"

text \<open>
  Modelled from the spec: the status, SDK and object type enumerations of the generated
  module \<^verbatim>\<open>api.v1.api_pb2\<close>, which the helper imports. \<open>STATUS_OTHER\<close> stands for every
  further status of the backend.
\<close>

datatype status =
    STATUS_UNSPECIFIED
  | STATUS_VALIDATING
  | STATUS_PREPARING
  | STATUS_COMPILING
  | STATUS_EXECUTING
  | STATUS_FINISHED
  | STATUS_ERROR
  | STATUS_OTHER nat

datatype sdk = SDK_UNSPECIFIED | SDK_JAVA | SDK_GO | SDK_PYTHON | SDK_SCIO

datatype precompiled_object_type =
    PRECOMPILED_OBJECT_TYPE_UNSPECIFIED
  | PRECOMPILED_OBJECT_TYPE_EXAMPLE
  | PRECOMPILED_OBJECT_TYPE_KATA
  | PRECOMPILED_OBJECT_TYPE_UNIT_TEST

text \<open>
  The named tuple \<^verbatim>\<open>Tag\<close>; its fields carry the prefix \<open>tag_\<close> here, the fields of
  \<^verbatim>\<open>Dataset\<close>, \<^verbatim>\<open>Topic\<close> and \<^verbatim>\<open>Emulator\<close> the prefixes \<open>dataset_\<close>, \<open>topic_\<close> and
  \<open>emulator_\<close>, because \<^verbatim>\<open>Example\<close> has fields of the same names.
\<close>

record tag =
  tag_name :: yaml
  tag_complexity :: yaml
  tag_emulators :: yaml
  tag_datasets :: yaml
  tag_description :: yaml
  tag_multifile :: yaml
  tag_categories :: yaml
  tag_pipeline_options :: yaml
  tag_default_example :: yaml
  tag_context_line :: yaml
  tag_tags :: yaml
  tag_url_notebook :: yaml

text \<open>
  Modelled from the spec: the classes \<^verbatim>\<open>Dataset\<close> and \<^verbatim>\<open>Emulator\<close> of the module
  \<^verbatim>\<open>config\<close> (DatasetRef and EmulatorRef of the data model), with the fields the helper
  reads.
\<close>

record dataset =
  dataset_format :: string
  dataset_location :: string
  dataset_name :: string
  dataset_path :: string

record topic =
  topic_id :: string
  topic_dataset :: string

record emulator =
  emulator_topic :: topic
  emulator_name :: string

record example =
  name :: yaml
  complexity :: yaml
  sdk :: sdk
  filepath :: string
  code :: string
  status :: status
  tag :: tag
  url_vcs :: string
  url_notebook :: yaml
  logs :: string
  type :: precompiled_object_type
  pipeline_id :: string
  "output" :: string
  compile_output :: string
  graph :: string
  datasets :: "dataset list"
  emulators :: "emulator list"

section \<open>Scan roots: \<^verbatim>\<open>_check_no_nested\<close>\<close>

text \<open>
  \<^verbatim>\<open>pathlib.PurePath\<close> in its POSIX flavour, as the standard library of Python 3.8 to 3.11
  has it: a path is parsed into a drive (always empty on POSIX), a root (\<^verbatim>\<open>''\<close>,
  \<^verbatim>\<open>'/'\<close> or \<^verbatim>\<open>'//'\<close>) and the list of its parts, the root being the first part of an
  absolute path. Empty components and \<^verbatim>\<open>'.'\<close> components are dropped, \<^verbatim>\<open>'..'\<close> is kept.
  Equality and ordering of paths are equality and ordering of the part lists.
\<close>

record pure_path =
  drv :: string
  root :: string
  parts :: "string list"

text \<open>\<^verbatim>\<open>str.split(sep)\<close> for a separator of one character.\<close>

fun split_char :: "char \<Rightarrow> string \<Rightarrow> string list" where
  "split_char c [] = [[]]"
| "split_char c (x # xs) =
     (if x = c then [] # split_char c xs
      else (case split_char c xs of
              [] \<Rightarrow> [[x]]
            | w # ws \<Rightarrow> (x # w) # ws))"

definition sep :: char where
  "sep = CHR ''/''"

definition splitroot :: "string \<Rightarrow> string \<times> string \<times> string" where
  "splitroot part =
     (if part \<noteq> [] \<and> hd part = sep then
        (let stripped_part = dropWhile (\<lambda>c. c = sep) part in
           if length part - length stripped_part = 2
           then ([], [sep, sep], stripped_part)
           else ([], [sep], stripped_part))
      else ([], [], part))"

definition parse_parts :: "string \<Rightarrow> string \<times> string \<times> string list" where
  "parse_parts part =
     (if part = [] then ([], [], [])
      else (case splitroot part of (d, r, rel) \<Rightarrow>
        (d, r,
         (if d @ r \<noteq> [] then [d @ r] else []) @
         filter (\<lambda>x. x \<noteq> [] \<and> x \<noteq> ''.'') (split_char sep rel))))"

definition PurePath :: "string \<Rightarrow> pure_path" where
  "PurePath s =
     (case parse_parts s of (d, r, ps) \<Rightarrow> \<lparr>drv = d, root = r, parts = ps\<rparr>)"

text \<open>
  \<^verbatim>\<open>path.parents\<close>: the part list shortened by one part at a time; an absolute path
  stops at its root, a relative path at the empty path \<^verbatim>\<open>'.'\<close>.
\<close>

definition parents :: "pure_path \<Rightarrow> pure_path list" where
  "parents p =
     (let n = (if drv p \<noteq> [] \<or> root p \<noteq> [] then length (parts p) - 1
               else length (parts p))
      in map (\<lambda>idx. p\<lparr>parts := take (length (parts p) - idx - 1) (parts p)\<rparr>) [0..<n])"

definition path_eq :: "pure_path \<Rightarrow> pure_path \<Rightarrow> bool" where
  "path_eq a b = (parts a = parts b)"

text \<open>\<^verbatim>\<open>dir1 in [dir2, *dir2.parents]\<close>\<close>

definition in_self_or_parents :: "pure_path \<Rightarrow> pure_path \<Rightarrow> bool" where
  "in_self_or_parents dir1 dir2 = list_ex (path_eq dir1) (dir2 # parents dir2)"

text \<open>The loop over \<^verbatim>\<open>zip(sorted_subdirs, sorted_subdirs[1:])\<close>.\<close>

fun check_pairs :: "(pure_path \<times> pure_path) list \<Rightarrow> error + unit" where
  "check_pairs [] = Inr ()"
| "check_pairs ((dir1, dir2) # rest) =
     (if in_self_or_parents dir1 dir2 then Inl (NestedSubdirs (parts dir2) (parts dir1))
      else check_pairs rest)"

definition check_no_nested :: "string list \<Rightarrow> error + unit" where
  "check_no_nested subdirs =
     (let sorted_subdirs = sort_key parts (map PurePath subdirs)
      in check_pairs (zip sorted_subdirs (tl sorted_subdirs)))"

text \<open>A scan root that is a strict ancestor of another, as \<^verbatim>\<open>parents\<close> defines it.\<close>

definition strict_ancestor :: "string \<Rightarrow> string \<Rightarrow> bool" where
  "strict_ancestor a b = list_ex (path_eq (PurePath a)) (parents (PurePath b))"

section \<open>Concurrency override of \<^verbatim>\<open>get_statuses\<close>\<close>

text \<open>
  \<^verbatim>\<open>int(s)\<close> for a string of ASCII characters: white space around the number is
  stripped, one sign is allowed, and the digits may be grouped by single underscores.
  \<open>None\<close> is \<^verbatim>\<open>ValueError\<close>.
\<close>

definition py_isspace :: "char \<Rightarrow> bool" where
  "py_isspace c = ((of_char c :: nat) \<in> {9, 10, 11, 12, 13, 28, 29, 30, 31, 32})"

definition py_strip :: "string \<Rightarrow> string" where
  "py_strip s = rev (dropWhile py_isspace (rev (dropWhile py_isspace s)))"

definition is_digit :: "char \<Rightarrow> bool" where
  "is_digit c = (48 \<le> (of_char c :: nat) \<and> (of_char c :: nat) \<le> 57)"

fun int_digits :: "bool \<Rightarrow> nat \<Rightarrow> string \<Rightarrow> nat option" where
  "int_digits prev acc [] = (if prev then Some acc else None)"
| "int_digits prev acc (c # cs) =
     (if is_digit c then int_digits True (10 * acc + (of_char c - 48)) cs
      else if c = CHR ''_'' \<and> prev then int_digits False acc cs
      else None)"

definition py_int :: "string \<Rightarrow> int option" where
  "py_int s =
     (case py_strip s of
        [] \<Rightarrow> None
      | c # cs \<Rightarrow>
          if c = CHR ''-'' then map_option (\<lambda>n. - int n) (int_digits False 0 cs)
          else if c = CHR ''+'' then map_option int (int_digits False 0 cs)
          else map_option int (int_digits False 0 (c # cs)))"

text \<open>
  The \<^verbatim>\<open>try\<close> block of \<^verbatim>\<open>get_statuses\<close>: \<^verbatim>\<open>KeyError\<close> (the variable is not set) and
  \<^verbatim>\<open>ValueError\<close> (\<^verbatim>\<open>int\<close> rejects its value) leave \<^verbatim>\<open>concurrency\<close> as the caller gave it.
\<close>

definition override_concurrency :: "(string \<rightharpoonup> string) \<Rightarrow> int \<Rightarrow> int" where
  "override_concurrency environ concurrency =
     (case environ ''BEAM_CONCURRENCY'' of
        None \<Rightarrow> concurrency
      | Some v \<Rightarrow> (case py_int v of None \<Rightarrow> concurrency | Some n \<Rightarrow> n))"

text \<open>\<^verbatim>\<open>asyncio.Semaphore(value)\<close> raises \<^verbatim>\<open>ValueError\<close> for a negative value.\<close>

definition Semaphore :: "int \<Rightarrow> error + nat" where
  "Semaphore v =
     (if v < 0 then Inl (ValueError ''Semaphore initial value must be >= 0'')
      else Inr (nat v))"

section \<open>The coroutine \<^verbatim>\<open>_update_example_status\<close>\<close>

text \<open>
  The coroutine runs on the event loop of \<^verbatim>\<open>asyncio\<close>: it runs without interruption from
  one \<^verbatim>\<open>await\<close> to the next, and is resumed by the answer of the backend. Its state
  between two stretches is the point where it waits; an answer of the backend is an event.
\<close>

record dataset_payload =
  payload_type :: nat
  payload_options :: "(string \<times> string) list"
  payload_dataset_path :: string

datatype wait_point =
    AwaitRunCode "dataset_payload list"
      \<comment> \<open>suspended in \<^verbatim>\<open>client.run_code\<close>\<close>
  | AwaitStatus string
      \<comment> \<open>suspended in \<^verbatim>\<open>client.check_status\<close> or in \<^verbatim>\<open>asyncio.sleep\<close>\<close>
  | Completed
      \<comment> \<open>\<^verbatim>\<open>example.status\<close> is stored and the coroutine has returned\<close>
  | Raising error
      \<comment> \<open>an exception has left the coroutine\<close>

datatype answer =
    ReturnedId string
  | ReturnedStatus status
  | RpcRaised error

definition upper_char :: "char \<Rightarrow> char" where
  "upper_char c =
     (if 97 \<le> (of_char c :: nat) \<and> (of_char c :: nat) \<le> 122
      then char_of ((of_char c :: nat) - 32) else c)"

text \<open>
  The first stretch, up to \<^verbatim>\<open>await client.run_code\<close>. The table of
  \<^verbatim>\<open>api_pb2.EmulatorType.Value\<close> is a parameter; a name it does not hold is \<^verbatim>\<open>ValueError\<close>.
\<close>

definition update_example_status_begin ::
    "(string \<rightharpoonup> nat) \<Rightarrow> example \<Rightarrow> wait_point" where
  "update_example_status_begin emulator_type_value ex =
     (if datasets ex \<noteq> [] \<and> emulators ex \<noteq> [] then
        (let dataset_tag = hd (datasets ex);
             emulator_tag = hd (emulators ex);
             options = [(''topic'', topic_id (emulator_topic emulator_tag))];
             enum_name = ''EMULATOR_TYPE_'' @ map upper_char (emulator_name emulator_tag)
         in case emulator_type_value enum_name of
              None \<Rightarrow> Raising (ValueError enum_name)
            | Some t \<Rightarrow>
                AwaitRunCode [\<lparr>payload_type = t, payload_options = options,
                               payload_dataset_path = dataset_path dataset_tag\<rparr>])
      else AwaitRunCode [])"

definition non_terminal :: "status list" where
  "non_terminal = [STATUS_VALIDATING, STATUS_PREPARING, STATUS_COMPILING, STATUS_EXECUTING]"

text \<open>
  The later stretches: the coroutine is resumed with an answer of the backend. \<open>None\<close>
  means that the answer is not one the coroutine waits for at this point.
\<close>

fun update_example_status_resume ::
    "example \<Rightarrow> wait_point \<Rightarrow> answer \<Rightarrow> (example \<times> wait_point) option" where
  "update_example_status_resume ex (AwaitRunCode ds) (ReturnedId pid) =
     Some (ex\<lparr>pipeline_id := pid\<rparr>, AwaitStatus pid)"
| "update_example_status_resume ex (AwaitRunCode ds) (RpcRaised e) = Some (ex, Raising e)"
| "update_example_status_resume ex (AwaitStatus pid) (ReturnedStatus st) =
     (if st \<in> set non_terminal then Some (ex, AwaitStatus pid)
      else Some (ex\<lparr>status := st\<rparr>, Completed))"
| "update_example_status_resume ex (AwaitStatus pid) (RpcRaised e) = Some (ex, Raising e)"
| "update_example_status_resume ex w a = None"

text \<open>One run of the coroutine against a list of answers, from its first stretch on.\<close>

fun update_example_status_run ::
    "example \<Rightarrow> wait_point \<Rightarrow> answer list \<Rightarrow> (example \<times> wait_point) option" where
  "update_example_status_run ex w [] = Some (ex, w)"
| "update_example_status_run ex w (a # as) =
     (case update_example_status_resume ex w a of
        None \<Rightarrow> None
      | Some (ex', w') \<Rightarrow> update_example_status_run ex' w' as)"

definition update_example_status ::
    "(string \<rightharpoonup> nat) \<Rightarrow> example \<Rightarrow> answer list \<Rightarrow> (example \<times> wait_point) option" where
  "update_example_status emulator_type_value ex as =
     update_example_status_run ex (update_example_status_begin emulator_type_value ex) as"

section \<open>The batch \<^verbatim>\<open>get_statuses\<close>\<close>

text \<open>
  Every example has a task \<^verbatim>\<open>_semaphored_task\<close>. A task is queued until it has acquired
  the semaphore, then runs \<^verbatim>\<open>_update_example_status\<close>, and releases the semaphore in its
  \<^verbatim>\<open>finally\<close> block when the coroutine returns or raises. The examples of the list are
  taken to be distinct objects: every task has its own record.
\<close>

datatype task_state =
    Queued
  | Running wait_point
  | Finished
  | Failed error

record task =
  task_example :: example
  task_state :: task_state

datatype batch = Gathering | Returned | Raised error

record batch_state =
  semaphore :: nat
  tasks :: "task list"
  batch :: batch

text \<open>
  The part of \<^verbatim>\<open>get_statuses\<close> before \<^verbatim>\<open>await tqdm.gather\<close>: the override, the semaphore
  and one task for every example.
\<close>

definition get_statuses_start ::
    "(string \<rightharpoonup> string) \<Rightarrow> example list \<Rightarrow> int \<Rightarrow> error + batch_state" where
  "get_statuses_start environ examples concurrency =
     (case Semaphore (override_concurrency environ concurrency) of
        Inl e \<Rightarrow> Inl e
      | Inr v \<Rightarrow>
          Inr \<lparr>semaphore = v,
               tasks = map (\<lambda>ex. \<lparr>task_example = ex, task_state = Queued\<rparr>) examples,
               batch = Gathering\<rparr>)"

text \<open>
  The events of the event loop while \<^verbatim>\<open>tqdm.gather\<close> is awaited: a queued task acquires
  the semaphore and runs its first stretch; the backend answers a running task; the
  gathering coroutine collects the tasks. \<^verbatim>\<open>tqdm.gather\<close> awaits the tasks as they end: it
  returns when every task has finished, and the exception of a failed task leaves it as soon
  as that task is collected. Nothing is modelled after the batch call has returned or raised.
\<close>

datatype event =
    Acquire nat
  | Answer nat answer
  | Gather

definition all_finished :: "task list \<Rightarrow> bool" where
  "all_finished ts = list_all (\<lambda>t. task_state t = Finished) ts"

fun first_failure :: "task list \<Rightarrow> error option" where
  "first_failure [] = None"
| "first_failure (t # ts) =
     (case task_state t of Failed e \<Rightarrow> Some e | _ \<Rightarrow> first_failure ts)"

definition step :: "(string \<rightharpoonup> nat) \<Rightarrow> batch_state \<Rightarrow> event \<Rightarrow> batch_state option" where
  "step emulator_type_value s ev =
     (if batch s \<noteq> Gathering then None
      else case ev of
        Acquire i \<Rightarrow>
          if i < length (tasks s) \<and> task_state (tasks s ! i) = Queued \<and> 0 < semaphore s then
            (case update_example_status_begin emulator_type_value (task_example (tasks s ! i)) of
               Raising e \<Rightarrow>
                 Some (s\<lparr>tasks := (tasks s)[i := (tasks s ! i)\<lparr>task_state := Failed e\<rparr>]\<rparr>)
             | w \<Rightarrow>
                 Some (s\<lparr>semaphore := semaphore s - 1,
                         tasks := (tasks s)[i := (tasks s ! i)\<lparr>task_state := Running w\<rparr>]\<rparr>))
          else None
      | Answer i a \<Rightarrow>
          if i < length (tasks s) then
            (case task_state (tasks s ! i) of
               Running w \<Rightarrow>
                 (case update_example_status_resume (task_example (tasks s ! i)) w a of
                    None \<Rightarrow> None
                  | Some (ex', Completed) \<Rightarrow>
                      Some (s\<lparr>semaphore := semaphore s + 1,
                              tasks := (tasks s)[i := \<lparr>task_example = ex', task_state = Finished\<rparr>]\<rparr>)
                  | Some (ex', Raising e) \<Rightarrow>
                      Some (s\<lparr>semaphore := semaphore s + 1,
                              tasks := (tasks s)[i := \<lparr>task_example = ex', task_state = Failed e\<rparr>]\<rparr>)
                  | Some (ex', w') \<Rightarrow>
                      Some (s\<lparr>tasks := (tasks s)[i := \<lparr>task_example = ex', task_state = Running w'\<rparr>]\<rparr>))
             | _ \<Rightarrow> None)
          else None
      | Gather \<Rightarrow>
          if all_finished (tasks s) then Some (s\<lparr>batch := Returned\<rparr>)
          else (case first_failure (tasks s) of
                  None \<Rightarrow> None
                | Some e \<Rightarrow> Some (s\<lparr>batch := Raised e\<rparr>)))"

fun run :: "(string \<rightharpoonup> nat) \<Rightarrow> batch_state \<Rightarrow> event list \<Rightarrow> batch_state option" where
  "run emulator_type_value s [] = Some s"
| "run emulator_type_value s (ev # evs) =
     (case step emulator_type_value s ev of
        None \<Rightarrow> None
      | Some s' \<Rightarrow> run emulator_type_value s' evs)"

text \<open>The tasks that hold a slot of the semaphore.\<close>

definition holds_slot :: "task \<Rightarrow> bool" where
  "holds_slot t = (case task_state t of Running w \<Rightarrow> True | _ \<Rightarrow> False)"

definition in_flight :: "batch_state \<Rightarrow> nat" where
  "in_flight s = length (filter holds_slot (tasks s))"

definition ended :: "task \<Rightarrow> bool" where
  "ended t = (case task_state t of Finished \<Rightarrow> True | Failed e \<Rightarrow> True | _ \<Rightarrow> False)"

text \<open>
  \<^verbatim>\<open>get_statuses\<close> along a list of events: \<open>Inl\<close> when the call raises before it awaits
  the tasks, \<open>Inr None\<close> when the events are not a run of the event loop, \<open>Inr (Some s)\<close>
  with the state the events lead to.
\<close>

definition get_statuses ::
    "(string \<rightharpoonup> nat) \<Rightarrow> (string \<rightharpoonup> string) \<Rightarrow> example list \<Rightarrow> int \<Rightarrow> event list
       \<Rightarrow> error + batch_state option" where
  "get_statuses emulator_type_value environ examples concurrency evs =
     (case get_statuses_start environ examples concurrency of
        Inl e \<Rightarrow> Inl e
      | Inr s0 \<Rightarrow> Inr (run emulator_type_value s0 evs))"

section \<open>Sample inputs\<close>

text \<open>
  The example of the scenario in the specification: \<^verbatim>\<open>foo.java\<close> with a tag named
  \<^verbatim>\<open>Foo\<close>, as \<^verbatim>\<open>_get_example\<close> builds it from the sample file below (the tag declares
  the context line 3 and takes two lines). It serves as a concrete input.
\<close>

definition foo_tag :: tag where
  "foo_tag =
     \<lparr>tag_name = YStr ''Foo'', tag_complexity = YStr ''MEDIUM'', tag_emulators = YNull,
      tag_datasets = YNull, tag_description = YStr ''An example'',
      tag_multifile = YBool False, tag_categories = YList [YStr ''Quickstart''],
      tag_pipeline_options = YNull, tag_default_example = YBool False,
      tag_context_line = YInt 1, tag_tags = YList [YStr ''demo''],
      tag_url_notebook = YNull\<rparr>"

definition foo_example :: example where
  "foo_example =
     \<lparr>name = YStr ''Foo'', complexity = YStr ''MEDIUM'', sdk = SDK_JAVA,
      filepath = ''examples/foo.java'', code = ''class Foo {}\<newline>'',
      status = STATUS_UNSPECIFIED, tag = foo_tag,
      url_vcs = ''https://github.com/apache/beam/blob/master/examples/foo.java'',
      url_notebook = YNull, logs = '''', type = PRECOMPILED_OBJECT_TYPE_EXAMPLE,
      pipeline_id = '''', output = '''', compile_output = '''', graph = '''',
      datasets = [], emulators = []\<rparr>"

definition kafka_only :: "string \<rightharpoonup> nat" where
  "kafka_only = [''EMULATOR_TYPE_KAFKA'' \<mapsto> 1]"

section \<open>Polling engine: invariants and sample runs\<close>

definition slot_inv :: "nat \<Rightarrow> batch_state \<Rightarrow> bool" where
  "slot_inv n s = (semaphore s + in_flight s = n)"

definition finished_inv :: "batch_state \<Rightarrow> bool" where
  "finished_inv s =
     list_all (\<lambda>t. task_state t \<noteq> Finished \<or> status (task_example t) \<notin> set non_terminal) (tasks s)"

definition only_id_and_status :: "example \<Rightarrow> example \<Rightarrow> bool" where
  "only_id_and_status ex ex' = (\<exists>p st. ex' = ex\<lparr>pipeline_id := p, status := st\<rparr>)"

definition returned_inv :: "batch_state \<Rightarrow> bool" where
  "returned_inv s = (batch s \<noteq> Returned \<or> all_finished (tasks s))"

text \<open>A running task waits for an answer of the backend.\<close>

definition waits :: "wait_point \<Rightarrow> bool" where
  "waits w = (case w of AwaitRunCode ds \<Rightarrow> True | AwaitStatus pid \<Rightarrow> True | _ \<Rightarrow> False)"

definition waiting_inv :: "batch_state \<Rightarrow> bool" where
  "waiting_inv s =
     list_all (\<lambda>t. case task_state t of Running w \<Rightarrow> waits w | _ \<Rightarrow> True) (tasks s)"

text \<open>
  A backend that answers at once: every job gets an identifier and is finished at the
  first check of its status. The tasks then run one after the other.
\<close>

definition immediate_events :: "nat \<Rightarrow> event list" where
  "immediate_events i =
     [Acquire i, Answer i (ReturnedId ''job''), Answer i (ReturnedStatus STATUS_FINISHED)]"

definition immediate_run :: "nat \<Rightarrow> event list" where
  "immediate_run n = concat (map immediate_events [0..<n]) @ [Gather]"

definition finished_task :: "example \<Rightarrow> task" where
  "finished_task ex =
     \<lparr>task_example = ex\<lparr>pipeline_id := ''job'', status := STATUS_FINISHED\<rparr>,
      task_state = Finished\<rparr>"

definition queued_task :: "example \<Rightarrow> task" where
  "queued_task ex = \<lparr>task_example = ex, task_state = Queued\<rparr>"

definition after_tasks :: "nat \<Rightarrow> example list \<Rightarrow> nat \<Rightarrow> batch_state" where
  "after_tasks n exs k =
     \<lparr>semaphore = n,
      tasks = map finished_task (take k exs) @ map queued_task (drop k exs),
      batch = Gathering\<rparr>"

definition three_jobs_events :: "event list" where
  "three_jobs_events =
     [Acquire 0, Acquire 1, Answer 0 (ReturnedId ''p0''),
      Answer 0 (ReturnedStatus STATUS_EXECUTING), Answer 0 (ReturnedStatus STATUS_FINISHED),
      Acquire 2, Answer 1 (ReturnedId ''p1''), Answer 2 (ReturnedId ''p2''),
      Answer 1 (ReturnedStatus STATUS_ERROR), Answer 2 (ReturnedStatus STATUS_FINISHED), Gather]"

definition three_jobs_final :: batch_state where
  "three_jobs_final =
      \<lparr>semaphore = 2,
       tasks = [\<lparr>task_example = foo_example\<lparr>pipeline_id := ''p0'', status := STATUS_FINISHED\<rparr>,
                 task_state = Finished\<rparr>,
                \<lparr>task_example = foo_example\<lparr>pipeline_id := ''p1'', status := STATUS_ERROR\<rparr>,
                 task_state = Finished\<rparr>,
                \<lparr>task_example = foo_example\<lparr>pipeline_id := ''p2'', status := STATUS_FINISHED\<rparr>,
                 task_state = Finished\<rparr>],
       batch = Returned\<rparr>"

definition failed_first_events :: "event list" where
  "failed_first_events =
     [Acquire 0, Answer 0 (RpcRaised (RpcError ''unavailable'')), Acquire 1, Gather]"

definition failed_first_final :: batch_state where
  "failed_first_final =
      \<lparr>semaphore = 0,
       tasks = [\<lparr>task_example = foo_example, task_state = Failed (RpcError ''unavailable'')\<rparr>,
                \<lparr>task_example = foo_example, task_state = Running (AwaitRunCode [])\<rparr>],
       batch = Raised (RpcError ''unavailable'')\<rparr>"

definition one_running :: batch_state where
  "one_running =
     \<lparr>semaphore = 0,
      tasks = [\<lparr>task_example = foo_example, task_state = Running (AwaitRunCode [])\<rparr>,
               \<lparr>task_example = foo_example, task_state = Queued\<rparr>],
      batch = Gathering\<rparr>"

definition one_failed :: batch_state where
  "one_failed =
     \<lparr>semaphore = 1,
      tasks = [\<lparr>task_example = foo_example, task_state = Failed (RpcError ''unavailable'')\<rparr>,
               \<lparr>task_example = foo_example, task_state = Queued\<rparr>],
      batch = Gathering\<rparr>"

section \<open>Strings and files\<close>

definition newline :: char where
  "newline = CHR 0x0A"

definition tab :: char where
  "tab = CHR 0x09"

text \<open>
  \<^verbatim>\<open>s.replace(old, new)\<close>: the occurrences of \<open>old\<close> are replaced from left to right,
  without overlap. The helper calls it with a non-empty \<open>old\<close> only.
\<close>

function replace :: "string \<Rightarrow> string \<Rightarrow> string \<Rightarrow> string" where
  "replace old new [] = []"
| "replace old new (c # cs) =
     (if old \<noteq> [] \<and> take (length old) (c # cs) = old
      then new @ replace old new (drop (length old) (c # cs))
      else c # replace old new cs)"
  by pat_completeness auto
termination
  by (relation "measure (\<lambda>(old, new, s). length s)") auto

text \<open>\<^verbatim>\<open>s.count(c)\<close> for one character and \<^verbatim>\<open>s.endswith(suffix)\<close>.\<close>

definition count_char :: "char \<Rightarrow> string \<Rightarrow> nat" where
  "count_char c s = length (filter (\<lambda>x. x = c) s)"

definition endswith :: "string \<Rightarrow> string \<Rightarrow> bool" where
  "endswith s suffix =
     (length suffix \<le> length s \<and> drop (length s - length suffix) s = suffix)"

definition lstrip :: "string \<Rightarrow> string" where
  "lstrip s = dropWhile py_isspace s"

text \<open>
  \<^verbatim>\<open>readlines()\<close> on the decoded text of a file: every line keeps its line end, and
  the last line has none when the text does not end with one.
\<close>

fun readlines :: "string \<Rightarrow> string list" where
  "readlines [] = []"
| "readlines (c # cs) =
     (if c = newline then [c] # readlines cs
      else (case readlines cs of
              [] \<Rightarrow> [[c]]
            | l # ls \<Rightarrow> (c # l) # ls))"

text \<open>
  The file system is a map from paths to the decoded text of the files; opening a path
  that is not there is \<^verbatim>\<open>FileNotFoundError\<close>.
\<close>

definition read_text :: "(string \<rightharpoonup> string) \<Rightarrow> string \<Rightarrow> error + string" where
  "read_text fs path =
     (case fs path of None \<Rightarrow> Inl (FileNotFoundError path) | Some text \<Rightarrow> Inr text)"

section \<open>Configuration\<close>

text \<open>
  Modelled from the spec: the constants of the module \<^verbatim>\<open>config\<close> that the helper reads
  (the marker line and the top-level key of the tag, the extension tables, the prefix of the
  VCS URL, the naming conventions \<^verbatim>\<open>test_ends\<close>, \<^verbatim>\<open>katas\<close> and \<^verbatim>\<open>examples\<close> of
  \<^verbatim>\<open>PrecompiledExampleType\<close>), and the functions of other modules
  it calls: \<^verbatim>\<open>yaml.load\<close> with the safe loader, \<^verbatim>\<open>os.path.relpath\<close>,
  \<^verbatim>\<open>Dataset.from_dict\<close> and \<^verbatim>\<open>Emulator.from_dict\<close>. They are parameters of the model.
\<close>

record config =
  BEAM_PLAYGROUND_TITLE :: string
  BEAM_PLAYGROUND :: string
  SDK_TO_EXTENSION :: "sdk \<rightharpoonup> string"
  EXTENSION_TO_SDK :: "string \<rightharpoonup> sdk"
  URL_VCS_PREFIX :: string
  type_test_ends :: "string list"
  type_katas :: string
  type_examples :: string
  yaml_load :: "string \<Rightarrow> error + yaml"
  relpath :: "string \<Rightarrow> string \<Rightarrow> string"
  dataset_from_dict :: "yaml \<Rightarrow> error + dataset"
  emulator_from_dict :: "yaml \<Rightarrow> error + emulator"

section \<open>Tag extraction: \<^verbatim>\<open>get_tag\<close>\<close>

record example_tag =
  tag_as_dict :: yaml
  tag_as_string :: string

definition format_line :: "string \<Rightarrow> string" where
  "format_line line = replace [tab] ''    '' (replace ''#'' [] (replace ''//'' [] line))"

text \<open>
  The loop over the lines, with the variables \<^verbatim>\<open>add_to_yaml\<close>, \<^verbatim>\<open>yaml_string\<close> and
  \<^verbatim>\<open>tag_string\<close> as its state. \<^verbatim>\<open>YAMLError\<close> ends the loop; any other exception of the
  loader leaves the function.
\<close>

fun get_tag_loop ::
    "config \<Rightarrow> bool \<Rightarrow> string \<Rightarrow> string \<Rightarrow> string list \<Rightarrow> error + bool \<times> string \<times> string" where
  "get_tag_loop cfg add_to_yaml yaml_string tag_string [] =
     Inr (add_to_yaml, yaml_string, tag_string)"
| "get_tag_loop cfg add_to_yaml yaml_string tag_string (line # lines) =
     (let formatted_line = format_line line in
      if \<not> add_to_yaml then
        (if lstrip formatted_line = BEAM_PLAYGROUND_TITLE cfg
         then get_tag_loop cfg True (yaml_string @ lstrip formatted_line) (tag_string @ line) lines
         else get_tag_loop cfg False yaml_string tag_string lines)
      else
        (case yaml_load cfg (yaml_string @ formatted_line) of
           Inr obj \<Rightarrow>
             get_tag_loop cfg True (yaml_string @ formatted_line) (tag_string @ line) lines
         | Inl YAMLError \<Rightarrow> Inr (add_to_yaml, yaml_string, tag_string)
         | Inl e \<Rightarrow> Inl e))"

text \<open>\<^verbatim>\<open>tag_object[key]\<close>: a missing key and an object that is no dictionary raise.\<close>

definition subscript :: "yaml \<Rightarrow> string \<Rightarrow> error + yaml" where
  "subscript obj key =
     (case obj of
        YMap d \<Rightarrow> (case map_of d key of None \<Rightarrow> Inl (KeyError key) | Some v \<Rightarrow> Inr v)
      | _ \<Rightarrow> Inl (TypeError ''object is not subscriptable by a string''))"

definition get_tag_lines :: "config \<Rightarrow> string list \<Rightarrow> error + example_tag option" where
  "get_tag_lines cfg lines =
     (case get_tag_loop cfg False [] [] lines of
        Inl e \<Rightarrow> Inl e
      | Inr (add_to_yaml, yaml_string, tag_string) \<Rightarrow>
          if add_to_yaml then
            (case yaml_load cfg yaml_string of
               Inl e \<Rightarrow> Inl e
             | Inr tag_object \<Rightarrow>
                 (case subscript tag_object (BEAM_PLAYGROUND cfg) of
                    Inl e \<Rightarrow> Inl e
                  | Inr v \<Rightarrow> Inr (Some \<lparr>tag_as_dict = v, tag_as_string = tag_string\<rparr>)))
          else Inr None)"

definition get_tag :: "config \<Rightarrow> (string \<rightharpoonup> string) \<Rightarrow> string \<Rightarrow> error + example_tag option" where
  "get_tag cfg fs path =
     (case read_text fs path of
        Inl e \<Rightarrow> Inl e
      | Inr text \<Rightarrow> get_tag_lines cfg (readlines text))"

section \<open>Tag validation: \<^verbatim>\<open>_validate\<close>\<close>

text \<open>
  Modelled from the spec: the field names of \<^verbatim>\<open>TagFields\<close> and the required fields, which
  the code computes as the fields of \<^verbatim>\<open>TagFields\<close> that are not fields of
  \<^verbatim>\<open>OptionalTagFields\<close>. The code iterates over a set; the list fixes one order.
\<close>

definition required_tag_fields :: "string list" where
  "required_tag_fields =
     [''name'', ''complexity'', ''description'', ''multifile'', ''default_example'',
      ''context_line'', ''categories'', ''tags'', ''pipeline_options'']"

definition tag_field_names :: "string list" where
  "tag_field_names =
     [''name'', ''complexity'', ''emulators'', ''datasets'', ''description'', ''multifile'',
      ''categories'', ''pipeline_options'', ''default_example'', ''context_line'', ''tags'',
      ''url_notebook'']"

text \<open>The messages of \<^verbatim>\<open>logging.error\<close>, one constructor for every call in the module.\<close>

datatype log =
    MissingField string
  | EmptyField string
  | MultifileNotBoolean yaml
  | CategoriesNotList yaml
  | UnsupportedCategory yaml
  | ContextLineNotInteger yaml
  | IncorrectFormat string
  | ValidationError string

text \<open>
  \<^verbatim>\<open>field in tag\<close> and \<^verbatim>\<open>tag.get(field)\<close> for whatever object the tag is: a dictionary has
  both; a list and a string have membership but no \<^verbatim>\<open>get\<close>; the other objects have
  neither.
\<close>

fun is_substring :: "string \<Rightarrow> string \<Rightarrow> bool" where
  "is_substring k [] = (k = [])"
| "is_substring k (c # cs) = (take (length k) (c # cs) = k \<or> is_substring k cs)"

definition py_contains :: "yaml \<Rightarrow> string \<Rightarrow> error + bool" where
  "py_contains obj k =
     (case obj of
        YMap d \<Rightarrow> Inr (k \<in> set (map fst d))
      | YList xs \<Rightarrow> Inr (YStr k \<in> set xs)
      | YStr s \<Rightarrow> Inr (is_substring k s)
      | _ \<Rightarrow> Inl (TypeError ''argument is not iterable''))"

definition py_get :: "yaml \<Rightarrow> string \<Rightarrow> error + yaml" where
  "py_get obj k =
     (case obj of
        YMap d \<Rightarrow> Inr (dict_get d k)
      | _ \<Rightarrow> Inl (AttributeError ''get''))"

text \<open>The loop over the required fields, with \<^verbatim>\<open>valid\<close> and the messages logged so far.\<close>

fun validate_required ::
    "yaml \<Rightarrow> string list \<Rightarrow> bool \<Rightarrow> log list \<Rightarrow> (error + bool) \<times> log list" where
  "validate_required t [] valid msgs = (Inr valid, msgs)"
| "validate_required t (field # rest) valid msgs =
     (case py_contains t field of
        Inl e \<Rightarrow> (Inl e, msgs)
      | Inr present \<Rightarrow>
          (let valid1 = (if present then valid else False);
               msgs1 = (if present then msgs else msgs @ [MissingField field])
           in if valid1 then
                (case py_get t field of
                   Inl e \<Rightarrow> (Inl e, msgs1)
                 | Inr v \<Rightarrow>
                     if (v = YStr [] \<or> v = YNull) \<and> field \<noteq> ''pipeline_options''
                     then validate_required t rest False (msgs1 @ [EmptyField field])
                     else validate_required t rest True msgs1)
              else validate_required t rest False msgs1))"

definition lower_char :: "char \<Rightarrow> char" where
  "lower_char c =
     (if 65 \<le> (of_char c :: nat) \<and> (of_char c :: nat) \<le> 90
      then char_of ((of_char c :: nat) + 32) else c)"

text \<open>
  \<^verbatim>\<open>str(multifile).lower() in ["true", "false"]\<close>: \<^verbatim>\<open>str\<close> of a boolean is \<^verbatim>\<open>True\<close> or
  \<^verbatim>\<open>False\<close>, of a string the string; of \<^verbatim>\<open>None\<close> it is \<^verbatim>\<open>None\<close>, of an integer a
  numeral, of a list or a dictionary a text in brackets, none of which lowers to
  \<^verbatim>\<open>true\<close> or \<^verbatim>\<open>false\<close>.
\<close>

definition multifile_is_boolean :: "yaml \<Rightarrow> bool" where
  "multifile_is_boolean v =
     (case v of
        YBool b \<Rightarrow> True
      | YStr s \<Rightarrow> map lower_char s \<in> set [''true'', ''false'']
      | _ \<Rightarrow> False)"

text \<open>\<^verbatim>\<open>isinstance(v, int)\<close>: a boolean is an integer in Python.\<close>

definition isinstance_int :: "yaml \<Rightarrow> bool" where
  "isinstance_int v = (case v of YInt i \<Rightarrow> True | YBool b \<Rightarrow> True | _ \<Rightarrow> False)"

definition unsupported :: "string list \<Rightarrow> yaml \<Rightarrow> bool" where
  "unsupported supported_categories category =
     (case category of YStr c \<Rightarrow> c \<notin> set supported_categories | _ \<Rightarrow> True)"

definition check_multifile :: "yaml \<Rightarrow> log list" where
  "check_multifile multifile =
     (if multifile_is_boolean multifile then [] else [MultifileNotBoolean multifile])"

definition check_categories :: "string list \<Rightarrow> yaml \<Rightarrow> log list" where
  "check_categories supported_categories categories =
     (case categories of
        YList cs \<Rightarrow> map UnsupportedCategory (filter (unsupported supported_categories) cs)
      | _ \<Rightarrow> [CategoriesNotList categories])"

definition check_context_line :: "yaml \<Rightarrow> log list" where
  "check_context_line context_line =
     (if isinstance_int context_line then [] else [ContextLineNotInteger context_line])"

definition validate :: "yaml \<Rightarrow> string list \<Rightarrow> (error + bool) \<times> log list" where
  "validate t supported_categories =
     (case validate_required t required_tag_fields True [] of
        (Inl e, msgs) \<Rightarrow> (Inl e, msgs)
      | (Inr False, msgs) \<Rightarrow> (Inr False, msgs)
      | (Inr True, msgs) \<Rightarrow>
          (case py_get t ''multifile'' of
             Inl e \<Rightarrow> (Inl e, msgs)
           | Inr multifile \<Rightarrow>
          (case py_get t ''categories'' of
             Inl e \<Rightarrow> (Inl e, msgs @ check_multifile multifile)
           | Inr categories \<Rightarrow>
          (case py_get t ''context_line'' of
             Inl e \<Rightarrow>
               (Inl e, msgs @ check_multifile multifile @
                       check_categories supported_categories categories)
           | Inr context_line \<Rightarrow>
               (let later = check_multifile multifile @
                            check_categories supported_categories categories @
                            check_context_line context_line
                in (Inr (later = []), msgs @ later))))))"

section \<open>Building an example: \<^verbatim>\<open>_get_example\<close>\<close>

text \<open>\<^verbatim>\<open>s.rfind(c)\<close> and the root part of \<^verbatim>\<open>os.path.splitext\<close> (POSIX).\<close>

definition rfind :: "char \<Rightarrow> string \<Rightarrow> int" where
  "rfind c s =
     (if c \<in> set s then int (length s) - 1 - int (length (takeWhile (\<lambda>x. x \<noteq> c) (rev s)))
      else - 1)"

definition splitext_root :: "string \<Rightarrow> string" where
  "splitext_root p =
     (let sepIndex = rfind sep p; dotIndex = rfind CHR ''.'' p in
      if sepIndex < dotIndex \<and>
         list_ex (\<lambda>c. c \<noteq> CHR ''.'')
           (take (nat (dotIndex - (sepIndex + 1))) (drop (nat (sepIndex + 1)) p))
      then take (nat dotIndex) p
      else p)"

definition get_object_type :: "config \<Rightarrow> string \<Rightarrow> string \<Rightarrow> precompiled_object_type" where
  "get_object_type cfg file_name path =
     (let filename_no_ext = map lower_char (splitext_root file_name) in
      if list_ex (endswith filename_no_ext) (type_test_ends cfg)
      then PRECOMPILED_OBJECT_TYPE_UNIT_TEST
      else if type_katas cfg \<in> set (split_char sep path) then PRECOMPILED_OBJECT_TYPE_KATA
      else if type_examples cfg \<in> set (split_char sep path) then PRECOMPILED_OBJECT_TYPE_EXAMPLE
      else PRECOMPILED_OBJECT_TYPE_UNSPECIFIED)"

definition get_url_vcs :: "config \<Rightarrow> (string \<rightharpoonup> string) \<Rightarrow> string \<Rightarrow> string" where
  "get_url_vcs cfg environ path =
     (let root_dir = (case environ ''BEAM_ROOT_DIR'' of None \<Rightarrow> ''../..'' | Some d \<Rightarrow> d);
          rel_path = relpath cfg path root_dir
      in URL_VCS_PREFIX cfg @ ''/'' @ rel_path)"

text \<open>The truth value of an object in a condition.\<close>

definition truthy :: "yaml \<Rightarrow> bool" where
  "truthy v =
     (case v of
        YNull \<Rightarrow> False
      | YBool b \<Rightarrow> b
      | YInt i \<Rightarrow> i \<noteq> 0
      | YStr s \<Rightarrow> s \<noteq> []
      | YList xs \<Rightarrow> xs \<noteq> []
      | YMap d \<Rightarrow> d \<noteq> [])"

text \<open>\<^verbatim>\<open>d[key] -= n\<close>: the value is read, the difference is stored under the same key.\<close>

definition minus_int :: "yaml \<Rightarrow> int \<Rightarrow> error + yaml" where
  "minus_int v n =
     (case v of
        YInt i \<Rightarrow> Inr (YInt (i - n))
      | YBool b \<Rightarrow> Inr (YInt ((if b then 1 else 0) - n))
      | _ \<Rightarrow> Inl (TypeError ''unsupported operand type(s) for -=''))"

definition dict_set :: "(string \<times> yaml) list \<Rightarrow> string \<Rightarrow> yaml \<Rightarrow> (string \<times> yaml) list" where
  "dict_set d k v =
     (if k \<in> set (map fst d) then map (\<lambda>(k', v'). if k' = k then (k', v) else (k', v')) d
      else d @ [(k, v)])"

definition decrement_item :: "yaml \<Rightarrow> string \<Rightarrow> int \<Rightarrow> error + yaml" where
  "decrement_item obj k n =
     (case subscript obj k of
        Inl e \<Rightarrow> Inl e
      | Inr v \<Rightarrow>
          (case minus_int v n of
             Inl e \<Rightarrow> Inl e
           | Inr v' \<Rightarrow> (case obj of YMap d \<Rightarrow> Inr (YMap (dict_set d k v')) | _ \<Rightarrow> Inr obj)))"

text \<open>
  \<^verbatim>\<open>Tag(**tag_as_dict)\<close>: a key that is no field of the named tuple is \<^verbatim>\<open>TypeError\<close>, a
  missing field takes its default (\<^verbatim>\<open>False\<close> for \<^verbatim>\<open>multifile\<close> and
  \<^verbatim>\<open>default_example\<close>, \<^verbatim>\<open>None\<close> for the others).
\<close>

definition field_or :: "(string \<times> yaml) list \<Rightarrow> string \<Rightarrow> yaml \<Rightarrow> yaml" where
  "field_or d k dflt = (case map_of d k of None \<Rightarrow> dflt | Some v \<Rightarrow> v)"

definition make_tag :: "yaml \<Rightarrow> error + tag" where
  "make_tag obj =
     (case obj of
        YMap d \<Rightarrow>
          if list_all (\<lambda>k. k \<in> set tag_field_names) (map fst d) then
            Inr \<lparr>tag_name = field_or d ''name'' YNull,
                 tag_complexity = field_or d ''complexity'' YNull,
                 tag_emulators = field_or d ''emulators'' YNull,
                 tag_datasets = field_or d ''datasets'' YNull,
                 tag_description = field_or d ''description'' YNull,
                 tag_multifile = field_or d ''multifile'' (YBool False),
                 tag_categories = field_or d ''categories'' YNull,
                 tag_pipeline_options = field_or d ''pipeline_options'' YNull,
                 tag_default_example = field_or d ''default_example'' (YBool False),
                 tag_context_line = field_or d ''context_line'' YNull,
                 tag_tags = field_or d ''tags'' YNull,
                 tag_url_notebook = field_or d ''url_notebook'' YNull\<rparr>
          else Inl (TypeError ''unexpected keyword argument'')
      | _ \<Rightarrow> Inl (TypeError ''argument after ** must be a mapping''))"

text \<open>The loop that builds the data sets and the loop that builds the emulators, each from its dictionary.\<close>

fun build_datasets :: "config \<Rightarrow> (string \<times> yaml) list \<Rightarrow> error + dataset list" where
  "build_datasets cfg [] = Inr []"
| "build_datasets cfg ((key, v) # rest) =
     (case dataset_from_dict cfg v of
        Inl e \<Rightarrow> Inl e
      | Inr ds \<Rightarrow>
          (case build_datasets cfg rest of
             Inl e \<Rightarrow> Inl e
           | Inr dss \<Rightarrow> Inr (ds\<lparr>dataset_name := key\<rparr> # dss)))"

fun build_emulators :: "config \<Rightarrow> (string \<times> yaml) list \<Rightarrow> error + emulator list" where
  "build_emulators cfg [] = Inr []"
| "build_emulators cfg ((key, v) # rest) =
     (case emulator_from_dict cfg v of
        Inl e \<Rightarrow> Inl e
      | Inr em \<Rightarrow>
          (case build_emulators cfg rest of
             Inl e \<Rightarrow> Inl e
           | Inr ems \<Rightarrow> Inr (em\<lparr>emulator_name := key\<rparr> # ems)))"

definition items_of :: "yaml \<Rightarrow> error + (string \<times> yaml) list" where
  "items_of v =
     (case v of
        YMap d \<Rightarrow> Inr d
      | YList xs \<Rightarrow> Inl (AttributeError ''get'')
      | YStr s \<Rightarrow> Inl (AttributeError ''get'')
      | _ \<Rightarrow> Inl (TypeError ''object is not iterable''))"

section \<open>Field validation: \<^verbatim>\<open>validate_example_fields\<close>\<close>

definition valid_dataset :: "dataset \<Rightarrow> bool" where
  "valid_dataset ds =
     (dataset_location ds \<noteq> [] \<and> dataset_format ds \<noteq> [] \<and>
      dataset_location ds \<in> set [''local''] \<and>
      dataset_format ds \<in> set [''json'', ''avro''])"

definition valid_emulator :: "string list \<Rightarrow> emulator \<Rightarrow> bool" where
  "valid_emulator dataset_names em =
     (emulator_name em = ''kafka'' \<and> topic_dataset (emulator_topic em) \<in> set dataset_names)"

definition validate_example_fields :: "example \<Rightarrow> error + unit" where
  "validate_example_fields ex =
     (if filepath ex = [] then
        Inl (ValidationException ''Example doesn't have a file path field'')
      else if name ex = YStr [] then
        Inl (ValidationException ''Example doesn't have a name field'')
      else if sdk ex = SDK_UNSPECIFIED then
        Inl (ValidationException ''Example doesn't have a sdk field'')
      else if code ex = [] then
        Inl (ValidationException ''Example doesn't have a code field'')
      else if url_vcs ex = [] then
        Inl (ValidationException ''Example doesn't have a url_vcs field'')
      else if complexity ex = YStr [] then
        Inl (ValidationException ''Example doesn't have a complexity field'')
      else if datasets ex \<noteq> [] \<and> emulators ex = [] then
        Inl (ValidationException ''Example has a datasets field but an emulators field not found'')
      else if emulators ex \<noteq> [] \<and> datasets ex = [] then
        Inl (ValidationException ''Example has an emulators field but a datasets field not found'')
      else if \<not> list_all valid_dataset (datasets ex) then
        Inl (ValidationException ''Example has invalid dataset value'')
      else if \<not> list_all (valid_emulator (map dataset_name (datasets ex))) (emulators ex) then
        Inl (ValidationException ''Example has invalid emulator value'')
      else Inr ())"

section \<open>\<^verbatim>\<open>_get_example\<close> and \<^verbatim>\<open>_check_file\<close>\<close>

text \<open>
  The part of \<^verbatim>\<open>_get_example\<close> after the file has been read: the tag text is removed
  from the content, the context line is moved, the record is built and its fields are
  validated.
\<close>

definition build_example ::
    "config \<Rightarrow> (string \<rightharpoonup> string) \<Rightarrow> string \<Rightarrow> example_tag \<Rightarrow> yaml \<Rightarrow> yaml \<Rightarrow> yaml \<Rightarrow> sdk
       \<Rightarrow> precompiled_object_type \<Rightarrow> string \<Rightarrow> error + example" where
  "build_example cfg environ path t name0 complexity0 url_notebook0 sdk0 object_type content0 =
     (let content = replace (tag_as_string t) [] content0 in
      case decrement_item (tag_as_dict t) ''context_line''
             (int (count_char newline (tag_as_string t))) of
        Inl e \<Rightarrow> Inl e
      | Inr d \<Rightarrow>
      (case make_tag d of
        Inl e \<Rightarrow> Inl e
      | Inr tg \<Rightarrow>
      (let ex = \<lparr>name = name0, complexity = complexity0, sdk = sdk0, filepath = path,
                 code = content, status = STATUS_UNSPECIFIED, tag = tg,
                 url_vcs = get_url_vcs cfg environ path, url_notebook = url_notebook0,
                 logs = [], type = object_type, pipeline_id = [], output = [],
                 compile_output = [], graph = [], datasets = [], emulators = []\<rparr>
       in
       case (case py_get d ''datasets'' of
               Inl e \<Rightarrow> Inl e
             | Inr v \<Rightarrow>
                 if truthy v then
                   (case items_of v of Inl e \<Rightarrow> Inl e | Inr items \<Rightarrow> build_datasets cfg items)
                 else Inr []) of
         Inl e \<Rightarrow> Inl e
       | Inr dss \<Rightarrow>
       (case (case py_get d ''emulators'' of
                Inl e \<Rightarrow> Inl e
              | Inr v \<Rightarrow>
                  if truthy v then
                    (case items_of v of Inl e \<Rightarrow> Inl e | Inr items \<Rightarrow> build_emulators cfg items)
                  else Inr []) of
          Inl e \<Rightarrow> Inl e
        | Inr ems \<Rightarrow>
            (case validate_example_fields (ex\<lparr>datasets := dss, emulators := ems\<rparr>) of
               Inl e \<Rightarrow> Inl e
             | Inr u \<Rightarrow> Inr (ex\<lparr>datasets := dss, emulators := ems\<rparr>))))))"

text \<open>
  \<^verbatim>\<open>_get_example\<close>, with the paths it opens and the messages it logs (a
  \<^verbatim>\<open>ValidationException\<close> is logged before it is raised).
\<close>

definition log_of :: "error \<Rightarrow> log list" where
  "log_of e = (case e of ValidationException msg \<Rightarrow> [ValidationError msg] | _ \<Rightarrow> [])"

definition get_example ::
    "config \<Rightarrow> (string \<rightharpoonup> string) \<Rightarrow> (string \<rightharpoonup> string) \<Rightarrow> string \<Rightarrow> string \<Rightarrow> example_tag
       \<Rightarrow> (error + example) \<times> string list \<times> log list" where
  "get_example cfg environ fs path file_name t =
     (case subscript (tag_as_dict t) ''name'' of
        Inl e \<Rightarrow> (Inl e, [], [])
      | Inr name0 \<Rightarrow>
      (case subscript (tag_as_dict t) ''complexity'' of
        Inl e \<Rightarrow> (Inl e, [], [])
      | Inr complexity0 \<Rightarrow>
      (case py_get (tag_as_dict t) ''url_notebook'' of
        Inl e \<Rightarrow> (Inl e, [], [])
      | Inr url_notebook0 \<Rightarrow>
      (case EXTENSION_TO_SDK cfg (last (split_char CHR ''.'' file_name)) of
        None \<Rightarrow> (Inl (KeyError (last (split_char CHR ''.'' file_name))), [], [])
      | Some sdk0 \<Rightarrow>
      (case read_text fs path of
        Inl e \<Rightarrow> (Inl e, [path], [])
      | Inr content0 \<Rightarrow>
          (case build_example cfg environ path t name0 complexity0 url_notebook0 sdk0
                  (get_object_type cfg file_name path) content0 of
             Inl e \<Rightarrow> (Inl e, [path], log_of e)
           | Inr ex \<Rightarrow> (Inr ex, [path], [])))))))"

text \<open>
  \<^verbatim>\<open>_check_file\<close>: the result is the flag \<^verbatim>\<open>has_error\<close> with the list of examples as the
  call leaves it, the paths opened and the messages logged.
\<close>

definition check_file ::
    "config \<Rightarrow> (string \<rightharpoonup> string) \<Rightarrow> (string \<rightharpoonup> string) \<Rightarrow> example list \<Rightarrow> string \<Rightarrow> string
       \<Rightarrow> string list \<Rightarrow> sdk \<Rightarrow> (error + bool \<times> example list) \<times> string list \<times> log list" where
  "check_file cfg environ fs exs file_name path supported_categories sdk0 =
     (if endswith path ''infrastructure/helper.py'' then (Inr (False, exs), [], [])
      else
        (case SDK_TO_EXTENSION cfg sdk0 of
           None \<Rightarrow> (Inl (KeyError ''sdk''), [], [])
         | Some ext \<Rightarrow>
             if last (split_char CHR ''.'' path) = ext then
               (case get_tag cfg fs path of
                  Inl e \<Rightarrow> (Inl e, [path], [])
                | Inr None \<Rightarrow> (Inr (False, exs), [path], [])
                | Inr (Some t) \<Rightarrow>
                    (case validate (tag_as_dict t) supported_categories of
                       (Inl e, msgs) \<Rightarrow> (Inl e, [path], msgs)
                     | (Inr False, msgs) \<Rightarrow>
                         (Inr (True, exs), [path], msgs @ [IncorrectFormat path])
                     | (Inr True, msgs) \<Rightarrow>
                         (case get_example cfg environ fs path file_name t of
                            (Inl e, opened, msgs') \<Rightarrow> (Inl e, path # opened, msgs @ msgs')
                          | (Inr ex, opened, msgs') \<Rightarrow>
                              (Inr (False, exs @ [ex]), path # opened, msgs @ msgs'))))
             else (Inr (False, exs), [], [])))"

section \<open>Sample files\<close>

text \<open>
  The configuration of the playground, with the loader and the other functions of foreign
  modules left open. \<open>sample_load\<close> is \<^verbatim>\<open>yaml.load\<close> with the safe loader on the texts the
  sample files below make \<^verbatim>\<open>get_tag\<close> hand to it; every other text is outside this table
  and is answered with \<^verbatim>\<open>YAMLError\<close>.
\<close>

definition foo_flow :: string where
  "foo_flow = ''{name: Foo, complexity: MEDIUM, description: An example, multifile: false, '' @
              ''default_example: false, context_line: 3, categories: [Quickstart], '' @
              ''tags: [demo], pipeline_options: }''"

definition foo_dict :: "(string \<times> yaml) list" where
  "foo_dict =
     [(''name'', YStr ''Foo''), (''complexity'', YStr ''MEDIUM''),
      (''description'', YStr ''An example''), (''multifile'', YBool False),
      (''default_example'', YBool False), (''context_line'', YInt 3),
      (''categories'', YList [YStr ''Quickstart'']), (''tags'', YList [YStr ''demo'']),
      (''pipeline_options'', YNull)]"

definition sample_load :: "string \<Rightarrow> error + yaml" where
  "sample_load text =
     (if text = ''Beam-playground:\<newline>'' then
        Inr (YMap [(''Beam-playground'', YNull)])
      else if text = ''Beam-playground:\<newline>   '' @ foo_flow @ ''\<newline>''
            \<or> text = ''Beam-playground:\<newline>   '' @ foo_flow then
        Inr (YMap [(''Beam-playground'', YMap foo_dict)])
      else if text = ''Beam-playground:\<newline>   url_notebook: https:x\<newline>'' then
        Inr (YMap [(''Beam-playground'', YMap [(''url_notebook'', YStr ''https:x'')])])
      else if text = ''Beam-playground:\<newline>   url_notebook: https://x\<newline>'' then
        Inr (YMap [(''Beam-playground'', YMap [(''url_notebook'', YStr ''https://x'')])])
      else if text = ''import foo\<newline>'' then
        Inr (YStr ''import foo'')
      else Inl YAMLError)"

definition beam_config :: config where
  "beam_config =
     \<lparr>BEAM_PLAYGROUND_TITLE = ''Beam-playground:\<newline>'',
      BEAM_PLAYGROUND = ''Beam-playground'',
      SDK_TO_EXTENSION = [SDK_JAVA \<mapsto> ''java'', SDK_GO \<mapsto> ''go'', SDK_PYTHON \<mapsto> ''py'',
                          SDK_SCIO \<mapsto> ''scala''],
      EXTENSION_TO_SDK = [''java'' \<mapsto> SDK_JAVA, ''go'' \<mapsto> SDK_GO, ''py'' \<mapsto> SDK_PYTHON,
                          ''scala'' \<mapsto> SDK_SCIO],
      URL_VCS_PREFIX = ''https://github.com/apache/beam/blob/master'',
      type_test_ends = [''test'', ''it''],
      type_katas = ''katas'',
      type_examples = ''examples'',
      yaml_load = sample_load,
      relpath = (\<lambda>p start. p),
      dataset_from_dict = (\<lambda>v. Inl (TypeError ''from_dict'')),
      emulator_from_dict = (\<lambda>v. Inl (TypeError ''from_dict''))\<rparr>"

section \<open>Notions used in the results on tags\<close>

text \<open>
  When the loop over the required fields of \<^verbatim>\<open>_validate\<close> finds nothing: every required
  field is a key of the tag, and its value is neither the empty string nor \<^verbatim>\<open>None\<close>,
  \<^verbatim>\<open>pipeline_options\<close> excepted.
\<close>

definition field_ok :: "(string \<times> yaml) list \<Rightarrow> string \<Rightarrow> bool" where
  "field_ok d f =
     (f \<in> set (map fst d) \<and>
      (if f = ''pipeline_options'' then True
       else dict_get d f \<noteq> YStr [] \<and> dict_get d f \<noteq> YNull))"

definition required_ok :: "(string \<times> yaml) list \<Rightarrow> bool" where
  "required_ok d = list_all (field_ok d) required_tag_fields"



text \<open>The messages of the loop over the required fields for a dictionary.\<close>

fun required_messages :: "(string \<times> yaml) list \<Rightarrow> string list \<Rightarrow> bool \<Rightarrow> log list" where
  "required_messages d [] v = []"
| "required_messages d (f # fs) v =
     (if f \<notin> set (map fst d) then MissingField f # required_messages d fs False
      else if v \<and> \<not> field_ok d f then EmptyField f # required_messages d fs False
      else required_messages d fs v)"

text \<open>A line of a metadata block that holds no comment marker and no tab.\<close>

definition clean :: "string \<Rightarrow> bool" where
  "clean l = (CHR ''#'' \<notin> set l \<and> tab \<notin> set l \<and> \<not> is_substring ''//'' l)"

text \<open>
  The loop of \<^verbatim>\<open>get_tag\<close> as the specification words it, for comparison with the code:
  in the accumulating state the candidate is parsed without the marker line.
\<close>

fun get_tag_loop_spec ::
    "config \<Rightarrow> bool \<Rightarrow> string \<Rightarrow> string \<Rightarrow> string list \<Rightarrow> error + bool \<times> string \<times> string" where
  "get_tag_loop_spec cfg add_to_yaml yaml_string tag_string [] =
     Inr (add_to_yaml, yaml_string, tag_string)"
| "get_tag_loop_spec cfg add_to_yaml yaml_string tag_string (line # lines) =
     (let formatted_line = format_line line in
      if \<not> add_to_yaml then
        (if lstrip formatted_line = BEAM_PLAYGROUND_TITLE cfg
         then get_tag_loop_spec cfg True (yaml_string @ lstrip formatted_line)
                (tag_string @ line) lines
         else get_tag_loop_spec cfg False yaml_string tag_string lines)
      else
        (case yaml_load cfg
                (drop (length (BEAM_PLAYGROUND_TITLE cfg)) (yaml_string @ formatted_line)) of
           Inr obj \<Rightarrow>
             get_tag_loop_spec cfg True (yaml_string @ formatted_line) (tag_string @ line) lines
         | Inl YAMLError \<Rightarrow> Inr (add_to_yaml, yaml_string, tag_string)
         | Inl e \<Rightarrow> Inl e))"

text \<open>Sample lines and tags.\<close>

definition title_line :: string where
  "title_line = ''Beam-playground:\<newline>''"

definition foo_lines :: "string list" where
  "foo_lines =
     [''// Beam-playground:\<newline>'',
      ''//   '' @ foo_flow @ ''\<newline>'',
      ''class Foo {}\<newline>'']"

definition notebook_lines :: "string list" where
  "notebook_lines =
     [''// Beam-playground:\<newline>'',
      ''//   url_notebook: https://x\<newline>'']"

definition import_lines :: "string list" where
  "import_lines =
     [''# Beam-playground:\<newline>'',
      ''import foo\<newline>'']"



text \<open>The integer that \<^verbatim>\<open>-=\<close> reads from a value, if it is one.\<close>

definition int_value :: "yaml \<Rightarrow> int option" where
  "int_value v =
     (case v of YInt i \<Rightarrow> Some i | YBool b \<Rightarrow> Some (if b then 1 else 0) | _ \<Rightarrow> None)"

text \<open>The file \<^verbatim>\<open>foo.java\<close>, and the same file with the tag at its end, after the code.\<close>

definition foo_java :: string where
  "foo_java = concat foo_lines"

definition foo_java_tag :: example_tag where
  "foo_java_tag =
     \<lparr>tag_as_dict = YMap foo_dict,
      tag_as_string = ''// Beam-playground:\<newline>'' @ ''//   '' @ foo_flow @ ''\<newline>''\<rparr>"

definition foo_java_tag_last :: string where
  "foo_java_tag_last =
     ''class Foo {}\<newline>'' @ ''// Beam-playground:\<newline>'' @ ''//   '' @ foo_flow"

definition tag_last_tag :: example_tag where
  "tag_last_tag =
     \<lparr>tag_as_dict = YMap foo_dict,
      tag_as_string = ''// Beam-playground:\<newline>'' @ ''//   '' @ foo_flow\<rparr>"

section \<open>Scan roots: results\<close>

lemma PurePath_dot: "PurePath ''.'' = \<lparr>drv = [], root = [], parts = []\<rparr>"
  by (simp add: PurePath_def parse_parts_def splitroot_def sep_def)

lemma PurePath_zzz: "PurePath ''/zzz'' = \<lparr>drv = [], root = ''/'', parts = [''/'', ''zzz'']\<rparr>"
  by (simp add: PurePath_def parse_parts_def splitroot_def sep_def)

lemma PurePath_a: "PurePath ''a'' = \<lparr>drv = [], root = [], parts = [''a'']\<rparr>"
  by (simp add: PurePath_def parse_parts_def splitroot_def sep_def)

lemma between_prefix:
  fixes p y b :: "'a::linorder list"
  assumes "take (length p) b = p" and "p \<le> y" and "y \<le> b"
  shows "take (length p) y = p"
  using assms
proof (induction p arbitrary: y b)
  case Nil
  then show ?case by simp
next
  case (Cons c p)
  from Cons.prems(1) obtain b' where b: "b = c # b'" and pb: "take (length p) b' = p"
    by (cases b) auto
  from Cons.prems(2) obtain d y' where y: "y = d # y'"
    by (cases y) auto
  from Cons.prems(2,3) b y have "d = c" and "p \<le> y'" and "y' \<le> b'"
    by (auto split: if_splits)
  with Cons.IH[OF pb] y show ?case by simp
qed

lemma less_append:
  fixes xs :: "'a::linorder list"
  shows "ys \<noteq> [] \<Longrightarrow> xs < xs @ ys"
  by (induction xs) (cases ys, auto)

lemma check_pairs_raises:
  "(x, y) \<in> set prs \<Longrightarrow> in_self_or_parents x y \<Longrightarrow> \<exists>e. check_pairs prs = Inl e"
  by (induction prs) auto

lemma sorted_adjacent:
  fixes f :: "'a \<Rightarrow> 'k::linorder"
  assumes "sorted (map f S)" and "a \<in> set S" and "b \<in> set S" and "f a < f b"
  shows "\<exists>x y. (x, y) \<in> set (zip S (tl S)) \<and> f x = f a \<and> f a < f y \<and> f y \<le> f b"
  using assms
proof (induction S arbitrary: a)
  case Nil
  then show ?case by simp
next
  case (Cons s S)
  from Cons.prems(1) have sS: "sorted (map f S)" and le: "\<forall>z \<in> set S. f s \<le> f z" by auto
  show ?case
  proof (cases "f s = f a")
    case True
    with Cons.prems(3,4) have bS: "b \<in> set S" by auto
    then obtain y S' where S: "S = y # S'" by (cases S) auto
    show ?thesis
    proof (cases "f y = f a")
      case True
      with S have "y \<in> set S" "f y < f b" using Cons.prems(4) by simp_all
      from Cons.IH[OF sS this(1) bS this(2)] True obtain x' y' where
        "(x', y') \<in> set (zip S (tl S))" "f x' = f a" "f a < f y'" "f y' \<le> f b" by auto
      then show ?thesis by (auto simp: S)
    next
      case False
      from le S \<open>f s = f a\<close> have "f a \<le> f y" by simp
      with False have "f a < f y" by simp
      moreover from sS S bS have "f y \<le> f b" by auto
      ultimately show ?thesis using \<open>f s = f a\<close> S by auto
    qed
  next
    case False
    with Cons.prems(2) have aS: "a \<in> set S" by auto
    from le aS have "f s \<le> f a" by simp
    with Cons.prems(3,4) have bS: "b \<in> set S" by auto
    from Cons.IH[OF sS aS bS Cons.prems(4)] obtain x y where
      "(x, y) \<in> set (zip S (tl S))" "f x = f a" "f a < f y" "f y \<le> f b" by blast
    then show ?thesis by (cases S) auto
  qed
qed

lemma in_parents_iff:
  "list_ex (path_eq a) (parents b) \<longleftrightarrow>
     (\<exists>k. (if drv b \<noteq> [] \<or> root b \<noteq> [] then 1 else 0) \<le> k \<and> k < length (parts b) \<and>
          parts a = take k (parts b))"
proof -
  let ?n = "if drv b \<noteq> [] \<or> root b \<noteq> [] then length (parts b) - 1 else length (parts b)"
  have "list_ex (path_eq a) (parents b) \<longleftrightarrow>
        (\<exists>idx < ?n. parts a = take (length (parts b) - idx - 1) (parts b))"
    by (auto simp: parents_def path_eq_def list_ex_iff Let_def)
  also have "\<dots> \<longleftrightarrow> (\<exists>k. (if drv b \<noteq> [] \<or> root b \<noteq> [] then 1 else 0) \<le> k \<and>
                  k < length (parts b) \<and> parts a = take k (parts b))"
  proof
    assume "\<exists>idx < ?n. parts a = take (length (parts b) - idx - 1) (parts b)"
    then obtain idx where "idx < ?n" "parts a = take (length (parts b) - idx - 1) (parts b)" by blast
    then show "\<exists>k. (if drv b \<noteq> [] \<or> root b \<noteq> [] then 1 else 0) \<le> k \<and>
                  k < length (parts b) \<and> parts a = take k (parts b)"
      by (intro exI[of _ "length (parts b) - idx - 1"]) (auto split: if_splits)
  next
    assume "\<exists>k. (if drv b \<noteq> [] \<or> root b \<noteq> [] then 1 else 0) \<le> k \<and>
                  k < length (parts b) \<and> parts a = take k (parts b)"
    then obtain k where k: "(if drv b \<noteq> [] \<or> root b \<noteq> [] then 1 else 0) \<le> k"
      "k < length (parts b)" "parts a = take k (parts b)" by blast
    then show "\<exists>idx < ?n. parts a = take (length (parts b) - idx - 1) (parts b)"
      by (intro exI[of _ "length (parts b) - k - 1"]) (auto split: if_splits)
  qed
  finally show ?thesis .
qed

text \<open>
  Where the check is complete: a scan root with at least one part that is a strict
  ancestor of another scan root is found, wherever the two roots stand in the list and
  however they are written, because every path that sorts between a path and one of its
  descendants is itself a descendant of that path.
\<close>

lemma check_no_nested_finds_nonempty_ancestor:
  assumes "a \<in> set subdirs" and "b \<in> set subdirs"
      and "strict_ancestor a b" and "parts (PurePath a) \<noteq> []"
  shows "\<exists>e. check_no_nested subdirs = Inl e"
proof -
  let ?S = "sort_key parts (map PurePath subdirs)"
  let ?a = "PurePath a" and ?b = "PurePath b"
  from assms(3) obtain k where k: "k < length (parts ?b)" "parts ?a = take k (parts ?b)"
    unfolding strict_ancestor_def in_parents_iff by blast
  then have len: "length (parts ?a) = k" by simp
  have pre: "take (length (parts ?a)) (parts ?b) = parts ?a" using k len by simp
  have lt: "parts ?a < parts ?b"
  proof -
    from k have "parts ?b = parts ?a @ drop k (parts ?b)" "drop k (parts ?b) \<noteq> []"
      by simp_all
    then show ?thesis
      using less_append[of "drop k (parts ?b)" "parts ?a"] by simp
  qed
  have "sorted (map parts ?S)" by simp
  moreover have "?a \<in> set ?S" "?b \<in> set ?S" using assms(1,2) by simp_all
  ultimately obtain x y where xy: "(x, y) \<in> set (zip ?S (tl ?S))" "parts x = parts ?a"
    "parts ?a < parts y" "parts y \<le> parts ?b"
    using sorted_adjacent[of parts ?S ?a ?b] lt by blast
  from between_prefix[OF pre _ xy(4)] xy(3) have py: "take (length (parts ?a)) (parts y) = parts ?a"
    by simp
  have ly: "length (parts ?a) < length (parts y)"
  proof (rule ccontr)
    assume "\<not> length (parts ?a) < length (parts y)"
    with py have "parts y = parts ?a" by simp
    with xy(3) show False by simp
  qed
  from assms(4) have "1 \<le> length (parts ?a)" by (cases "parts ?a") simp_all
  with py ly xy(2) have "list_ex (path_eq x) (parents y)"
    unfolding in_parents_iff
    by (intro exI[of _ "length (parts ?a)"]) (auto split: if_splits)
  then have "in_self_or_parents x y" by (simp add: in_self_or_parents_def)
  from check_pairs_raises[OF xy(1) this] show ?thesis
    by (simp add: check_no_nested_def Let_def)
qed

text \<open>
  C6. The scan roots \<^verbatim>\<open>['.', '/zzz', 'a']\<close>: the root \<^verbatim>\<open>'.'\<close> is a strict ancestor of
  the root \<^verbatim>\<open>'a'\<close> (it is the one element of \<^verbatim>\<open>PurePath('a').parents\<close>), yet the check
  returns without raising: sorted by their parts the roots are \<^verbatim>\<open>'.'\<close>, \<^verbatim>\<open>'/zzz'\<close>,
  \<^verbatim>\<open>'a'\<close>, and neither adjacent pair is nested.
\<close>

theorem check_no_nested_misses_dot:
  "strict_ancestor ''.'' ''a'' \<and> check_no_nested [''.'', ''/zzz'', ''a''] = Inr ()"
  by (simp add: strict_ancestor_def check_no_nested_def PurePath_dot PurePath_zzz PurePath_a
      parents_def path_eq_def in_self_or_parents_def)

section \<open>Polling engine: invariants of the event loop\<close>

lemma filter_update_count:
  "i < length xs \<Longrightarrow>
   length (filter P (xs[i := y])) + (if P (xs ! i) then 1 else 0) =
   length (filter P xs) + (if P y then 1 else 0)"
proof (induction xs arbitrary: i)
  case Nil
  then show ?case by simp
next
  case (Cons x xs)
  show ?case
  proof (cases i)
    case 0
    then show ?thesis by simp
  next
    case (Suc j)
    with Cons.prems have "j < length xs" by simp
    from Cons.IH[OF this] Suc show ?thesis by simp
  qed
qed

lemma resume_cases:
  assumes "update_example_status_resume ex w a = Some (ex', w')"
  shows "(\<exists>ds pid. w = AwaitRunCode ds \<and> a = ReturnedId pid \<and> ex' = ex\<lparr>pipeline_id := pid\<rparr> \<and> w' = AwaitStatus pid)
       \<or> (\<exists>e. a = RpcRaised e \<and> ex' = ex \<and> w' = Raising e \<and> (\<exists>x. w = AwaitRunCode x \<or> (\<exists>p. w = AwaitStatus p)))
       \<or> (\<exists>pid st. w = AwaitStatus pid \<and> a = ReturnedStatus st \<and> st \<in> set non_terminal \<and> ex' = ex \<and> w' = AwaitStatus pid)
       \<or> (\<exists>pid st. w = AwaitStatus pid \<and> a = ReturnedStatus st \<and> st \<notin> set non_terminal \<and> ex' = ex\<lparr>status := st\<rparr> \<and> w' = Completed)"
  using assms
  by (cases "(ex, w, a)" rule: update_example_status_resume.cases) (auto split: if_splits)

lemma step_cases [consumes 1, case_names acq_fail acq fin fail cont ret rais]:
  assumes "step etv s ev = Some s'"
  obtains
    (acq_fail) i e where "ev = Acquire i" "i < length (tasks s)"
      "task_state (tasks s ! i) = Queued" "0 < semaphore s" "batch s = Gathering"
      "update_example_status_begin etv (task_example (tasks s ! i)) = Raising e"
      "s' = s\<lparr>tasks := (tasks s)[i := (tasks s ! i)\<lparr>task_state := Failed e\<rparr>]\<rparr>"
  | (acq) i w where "ev = Acquire i" "i < length (tasks s)"
      "task_state (tasks s ! i) = Queued" "0 < semaphore s" "batch s = Gathering"
      "update_example_status_begin etv (task_example (tasks s ! i)) = w"
      "\<forall>e. w \<noteq> Raising e"
      "s' = s\<lparr>semaphore := semaphore s - 1,
              tasks := (tasks s)[i := (tasks s ! i)\<lparr>task_state := Running w\<rparr>]\<rparr>"
  | (fin) i w a ex' where "ev = Answer i a" "i < length (tasks s)" "batch s = Gathering"
      "task_state (tasks s ! i) = Running w"
      "update_example_status_resume (task_example (tasks s ! i)) w a = Some (ex', Completed)"
      "s' = s\<lparr>semaphore := semaphore s + 1,
              tasks := (tasks s)[i := \<lparr>task_example = ex', task_state = Finished\<rparr>]\<rparr>"
  | (fail) i w a ex' e where "ev = Answer i a" "i < length (tasks s)" "batch s = Gathering"
      "task_state (tasks s ! i) = Running w"
      "update_example_status_resume (task_example (tasks s ! i)) w a = Some (ex', Raising e)"
      "s' = s\<lparr>semaphore := semaphore s + 1,
              tasks := (tasks s)[i := \<lparr>task_example = ex', task_state = Failed e\<rparr>]\<rparr>"
  | (cont) i w a ex' w' where "ev = Answer i a" "i < length (tasks s)" "batch s = Gathering"
      "task_state (tasks s ! i) = Running w"
      "update_example_status_resume (task_example (tasks s ! i)) w a = Some (ex', w')"
      "w' \<noteq> Completed" "\<forall>e. w' \<noteq> Raising e"
      "s' = s\<lparr>tasks := (tasks s)[i := \<lparr>task_example = ex', task_state = Running w'\<rparr>]\<rparr>"
  | (ret) "ev = Gather" "batch s = Gathering" "all_finished (tasks s)" "s' = s\<lparr>batch := Returned\<rparr>"
  | (rais) e where "ev = Gather" "batch s = Gathering" "\<not> all_finished (tasks s)"
      "first_failure (tasks s) = Some e" "s' = s\<lparr>batch := Raised e\<rparr>"
proof (cases ev)
  case (Acquire i)
  with assms show ?thesis
    unfolding step_def
    by (auto split: if_splits wait_point.splits intro: acq_fail acq)
next
  case (Answer i a)
  with assms show ?thesis
    unfolding step_def
    by (auto split: if_splits task_state.splits option.splits prod.splits wait_point.splits
        intro: fin fail cont)
next
  case Gather
  with assms show ?thesis
    unfolding step_def
    by (auto split: if_splits option.splits intro: ret rais)
qed

lemma step_slot_inv:
  assumes "step etv s ev = Some s'" and "slot_inv n s"
  shows "slot_inv n s'"
  using assms(1)
proof (cases rule: step_cases)
  case (acq_fail i e)
  with assms(2) filter_update_count[of i "tasks s" holds_slot "(tasks s ! i)\<lparr>task_state := Failed e\<rparr>"]
  show ?thesis by (simp add: slot_inv_def in_flight_def holds_slot_def)
next
  case (acq i w)
  with assms(2) filter_update_count[of i "tasks s" holds_slot "(tasks s ! i)\<lparr>task_state := Running w\<rparr>"]
  show ?thesis by (simp add: slot_inv_def in_flight_def holds_slot_def)
next
  case (fin i w a ex')
  with assms(2) filter_update_count[of i "tasks s" holds_slot "\<lparr>task_example = ex', task_state = Finished\<rparr>"]
  show ?thesis by (simp add: slot_inv_def in_flight_def holds_slot_def)
next
  case (fail i w a ex' e)
  with assms(2) filter_update_count[of i "tasks s" holds_slot "\<lparr>task_example = ex', task_state = Failed e\<rparr>"]
  show ?thesis by (simp add: slot_inv_def in_flight_def holds_slot_def)
next
  case (cont i w a ex' w')
  with assms(2) filter_update_count[of i "tasks s" holds_slot "\<lparr>task_example = ex', task_state = Running w'\<rparr>"]
  show ?thesis by (simp add: slot_inv_def in_flight_def holds_slot_def)
next
  case ret
  with assms(2) show ?thesis by (simp add: slot_inv_def in_flight_def)
next
  case (rais e)
  with assms(2) show ?thesis by (simp add: slot_inv_def in_flight_def)
qed

lemma step_length:
  assumes "step etv s ev = Some s'"
  shows "length (tasks s') = length (tasks s)"
  using assms by (cases rule: step_cases) simp_all

lemma list_all_update:
  "list_all P xs \<Longrightarrow> P y \<Longrightarrow> list_all P (xs[i := y])"
  by (induction xs arbitrary: i) (auto split: nat.splits)

lemma step_finished_inv:
  assumes "step etv s ev = Some s'" and "finished_inv s"
  shows "finished_inv s'"
  using assms(1)
proof (cases rule: step_cases)
  case (fin i w a ex')
  from resume_cases[OF fin(5)] have "status ex' \<notin> set non_terminal" by auto
  with fin assms(2) show ?thesis
    by (simp add: finished_inv_def list_all_update)
qed (use assms(2) in \<open>simp_all add: finished_inv_def list_all_update\<close>)

lemma only_id_and_status_refl: "only_id_and_status ex ex"
  unfolding only_id_and_status_def
  by (rule exI[of _ "pipeline_id ex"], rule exI[of _ "status ex"]) simp

lemma only_id_and_status_trans:
  "only_id_and_status a b \<Longrightarrow> only_id_and_status b c \<Longrightarrow> only_id_and_status a c"
  unfolding only_id_and_status_def by (elim exE) (simp, blast)

lemma resume_only_id_and_status:
  assumes "update_example_status_resume ex w a = Some (ex', w')"
  shows "only_id_and_status ex ex'"
proof -
  from resume_cases[OF assms] consider
    (a) p where "ex' = ex\<lparr>pipeline_id := p\<rparr>" | (b) "ex' = ex" | (c) st where "ex' = ex\<lparr>status := st\<rparr>"
    by blast
  then show ?thesis
  proof cases
    case (a p)
    then have "ex' = ex\<lparr>pipeline_id := p, status := status ex\<rparr>" by simp
    then show ?thesis unfolding only_id_and_status_def by blast
  next
    case b
    then show ?thesis by (simp add: only_id_and_status_refl)
  next
    case (c st)
    then have "ex' = ex\<lparr>pipeline_id := pipeline_id ex, status := st\<rparr>" by simp
    then show ?thesis unfolding only_id_and_status_def by blast
  qed
qed

lemma run_only_id_and_status:
  "update_example_status_run ex w as = Some (ex', w') \<Longrightarrow> only_id_and_status ex ex'"
proof (induction as arbitrary: ex w)
  case Nil
  then show ?case by (simp add: only_id_and_status_refl)
next
  case (Cons a as)
  then obtain ex1 w1 where r: "update_example_status_resume ex w a = Some (ex1, w1)"
    and rest: "update_example_status_run ex1 w1 as = Some (ex', w')"
    by (auto split: option.splits)
  from resume_only_id_and_status[OF r] Cons.IH[OF rest] show ?case
    by (rule only_id_and_status_trans)
qed

lemma step_frame:
  assumes "step etv s ev = Some s'" and "i < length (tasks s)"
  shows "only_id_and_status (task_example (tasks s ! i)) (task_example (tasks s' ! i))"
  using assms(1)
proof (cases rule: step_cases)
  case (fin j w a ex')
  with assms(2) resume_only_id_and_status[OF fin(5)] show ?thesis
    by (cases "i = j") (simp_all add: only_id_and_status_refl)
next
  case (fail j w a ex' e)
  with assms(2) resume_only_id_and_status[OF fail(5)] show ?thesis
    by (cases "i = j") (simp_all add: only_id_and_status_refl)
next
  case (cont j w a ex' w')
  with assms(2) resume_only_id_and_status[OF cont(5)] show ?thesis
    by (cases "i = j") (simp_all add: only_id_and_status_refl)
next
  case (acq_fail j e)
  with assms(2) show ?thesis
    by (cases "i = j") (simp_all add: only_id_and_status_refl)
next
  case (acq j w)
  with assms(2) show ?thesis
    by (cases "i = j") (simp_all add: only_id_and_status_refl)
qed (simp_all add: only_id_and_status_refl)

lemma step_returned_inv:
  assumes "step etv s ev = Some s'"
  shows "returned_inv s'"
  using assms by (cases rule: step_cases) (simp_all add: returned_inv_def)

lemma run_slot_inv:
  "run etv s evs = Some s' \<Longrightarrow> slot_inv n s \<Longrightarrow> slot_inv n s'"
  by (induction evs arbitrary: s) (auto split: option.splits dest: step_slot_inv)

lemma run_length:
  "run etv s evs = Some s' \<Longrightarrow> length (tasks s') = length (tasks s)"
  by (induction evs arbitrary: s) (auto split: option.splits dest: step_length)

lemma run_finished_inv:
  "run etv s evs = Some s' \<Longrightarrow> finished_inv s \<Longrightarrow> finished_inv s'"
  by (induction evs arbitrary: s) (auto split: option.splits dest: step_finished_inv)

lemma run_returned_inv:
  "run etv s evs = Some s' \<Longrightarrow> returned_inv s \<Longrightarrow> returned_inv s'"
  by (induction evs arbitrary: s) (auto split: option.splits dest: step_returned_inv)

lemma run_frame:
  "run etv s evs = Some s' \<Longrightarrow> i < length (tasks s) \<Longrightarrow>
   only_id_and_status (task_example (tasks s ! i)) (task_example (tasks s' ! i))"
proof (induction evs arbitrary: s)
  case Nil
  then show ?case by (simp add: only_id_and_status_refl)
next
  case (Cons ev evs)
  then obtain s1 where st: "step etv s ev = Some s1" and rest: "run etv s1 evs = Some s'"
    by (auto split: option.splits)
  from step_length[OF st] Cons.prems(2) have "i < length (tasks s1)" by simp
  from step_frame[OF st Cons.prems(2)] Cons.IH[OF rest this] show ?case
    by (rule only_id_and_status_trans)
qed

lemma start_cases:
  assumes "get_statuses_start environ examples concurrency = Inr s0"
  shows "s0 = \<lparr>semaphore = nat (override_concurrency environ concurrency),
               tasks = map (\<lambda>ex. \<lparr>task_example = ex, task_state = Queued\<rparr>) examples,
               batch = Gathering\<rparr>"
    and "0 \<le> override_concurrency environ concurrency"
  using assms
  by (auto simp: get_statuses_start_def Semaphore_def split: if_splits sum.splits)

lemma start_invs:
  assumes "get_statuses_start environ examples concurrency = Inr s0"
  shows "slot_inv (semaphore s0) s0" "finished_inv s0" "returned_inv s0"
    "length (tasks s0) = length examples"
    "\<And>i. i < length examples \<Longrightarrow> task_example (tasks s0 ! i) = examples ! i"
  unfolding start_cases(1)[OF assms]
  by (simp_all add: slot_inv_def in_flight_def finished_inv_def returned_inv_def holds_slot_def
      list_all_iff o_def)

section \<open>Polling engine: results\<close>

lemma get_statuses_safe:
  assumes "get_statuses etv environ examples concurrency evs = Inr (Some s)"
  shows "int (in_flight s) \<le> override_concurrency environ concurrency \<and>
         length (tasks s) = length examples \<and>
         (batch s = Returned \<longrightarrow>
            (\<forall>i < length examples.
               task_state (tasks s ! i) = Finished \<and>
               status (task_example (tasks s ! i)) \<notin> set non_terminal \<and>
               only_id_and_status (examples ! i) (task_example (tasks s ! i))))"
proof -
  from assms obtain s0 where s0: "get_statuses_start environ examples concurrency = Inr s0"
    and r: "run etv s0 evs = Some s"
    by (auto simp: get_statuses_def split: sum.splits)
  note invs = start_invs[OF s0]
  from run_slot_inv[OF r invs(1)] have "in_flight s \<le> semaphore s0"
    by (simp add: slot_inv_def)
  moreover from start_cases[OF s0] have "int (semaphore s0) = override_concurrency environ concurrency"
    by simp
  ultimately have a: "int (in_flight s) \<le> override_concurrency environ concurrency" by linarith
  have b: "length (tasks s) = length examples"
    using run_length[OF r] invs(4) by simp
  have c: "task_state (tasks s ! i) = Finished \<and>
           status (task_example (tasks s ! i)) \<notin> set non_terminal \<and>
           only_id_and_status (examples ! i) (task_example (tasks s ! i))"
    if ret: "batch s = Returned" and i: "i < length examples" for i
  proof -
    from run_returned_inv[OF r invs(3)] ret have "all_finished (tasks s)"
      by (simp add: returned_inv_def)
    with i b have f: "task_state (tasks s ! i) = Finished"
      by (simp add: all_finished_def list_all_length)
    from run_finished_inv[OF r invs(2)] i b f
    have t: "status (task_example (tasks s ! i)) \<notin> set non_terminal"
      by (auto simp: finished_inv_def list_all_length)
    from run_frame[OF r, of i] i invs(4) invs(5)[OF i]
    have "only_id_and_status (examples ! i) (task_example (tasks s ! i))" by simp
    with f t show ?thesis by simp
  qed
  from a b c show ?thesis by blast
qed

lemma py_int_2: "py_int ''2'' = Some 2"
  by (simp add: py_int_def py_strip_def py_isspace_def is_digit_def)

lemma py_int_minus_1: "py_int ''-1'' = Some (- 1)"
  by (simp add: py_int_def py_strip_def py_isspace_def is_digit_def)

lemma py_int_ten_bad: "py_int ''ten'' = None"
  by (simp add: py_int_def py_strip_def py_isspace_def is_digit_def)

lemma foo_begin: "update_example_status_begin etv foo_example = AwaitRunCode []"
  by (simp add: update_example_status_begin_def foo_example_def)

lemmas eval_step = step_def get_statuses_def get_statuses_start_def Semaphore_def
  override_concurrency_def foo_begin all_finished_def non_terminal_def

lemma begin_not_completed: "update_example_status_begin etv ex \<noteq> Completed"
  by (simp add: update_example_status_begin_def Let_def split: option.splits)

lemma step_waiting_inv:
  assumes "step etv s ev = Some s'" and "waiting_inv s"
  shows "waiting_inv s'"
  using assms(1)
proof (cases rule: step_cases)
  case (acq i w)
  with assms(2) begin_not_completed[of etv "task_example (tasks s ! i)"] show ?thesis
    by (cases w) (simp_all add: waiting_inv_def list_all_update waits_def)
next
  case (cont i w a ex' w')
  with assms(2) show ?thesis
    by (cases w') (simp_all add: waiting_inv_def list_all_update waits_def)
qed (use assms(2) in \<open>simp_all add: waiting_inv_def list_all_update waits_def\<close>)

lemma run_waiting_inv:
  "run etv s evs = Some s' \<Longrightarrow> waiting_inv s \<Longrightarrow> waiting_inv s'"
  by (induction evs arbitrary: s) (auto split: option.splits dest: step_waiting_inv)

lemma no_running_in_flight:
  "list_all (\<lambda>t. \<not> holds_slot t) ts \<Longrightarrow> length (filter holds_slot ts) = 0"
  by (induction ts) auto

lemma all_ended_gather:
  assumes "list_all ended ts"
  shows "all_finished ts \<or> (\<exists>e. first_failure ts = Some e)"
  using assms
  by (induction ts) (auto simp: ended_def all_finished_def split: task_state.splits)

text \<open>
  With a limit of at least 1 the batch never comes to a standstill: as long as the batch
  call has neither returned nor raised, an event can happen. A running task can be answered;
  when no task runs, all slots are free and a queued task can acquire one; and when every
  task has ended, the gathering coroutine returns or raises.
\<close>

lemma get_statuses_progress:
  assumes "get_statuses etv environ exs concurrency evs = Inr (Some s)"
      and "1 \<le> override_concurrency environ concurrency"
      and "batch s = Gathering"
  shows "\<exists>ev s'. step etv s ev = Some s'"
proof -
  from assms(1) obtain s0 where s0: "get_statuses_start environ exs concurrency = Inr s0"
    and r: "run etv s0 evs = Some s"
    by (auto simp: get_statuses_def split: sum.splits)
  have w0: "waiting_inv s0"
    unfolding start_cases(1)[OF s0] by (simp add: waiting_inv_def list_all_iff waits_def)
  from run_waiting_inv[OF r w0] have w: "waiting_inv s" .
  from run_slot_inv[OF r start_invs(1)[OF s0]] have slot: "semaphore s + in_flight s = semaphore s0"
    by (simp add: slot_inv_def)
  from start_cases[OF s0] assms(2) have n: "1 \<le> semaphore s0" by simp
  consider (running) i where "i < length (tasks s)" "holds_slot (tasks s ! i)"
    | (queued) i where "i < length (tasks s)" "task_state (tasks s ! i) = Queued"
        "list_all (\<lambda>t. \<not> holds_slot t) (tasks s)"
    | (ended) "list_all ended (tasks s)"
  proof -
    have "(\<exists>i < length (tasks s). holds_slot (tasks s ! i)) \<or>
          (list_all (\<lambda>t. \<not> holds_slot t) (tasks s) \<and>
             (\<exists>i < length (tasks s). task_state (tasks s ! i) = Queued)) \<or>
          list_all ended (tasks s)"
    proof (cases "\<exists>i < length (tasks s). holds_slot (tasks s ! i)")
      case True
      then show ?thesis by simp
    next
      case False
      then have nr: "list_all (\<lambda>t. \<not> holds_slot t) (tasks s)"
        by (simp add: list_all_length)
      show ?thesis
      proof (cases "\<exists>i < length (tasks s). task_state (tasks s ! i) = Queued")
        case True
        with nr show ?thesis by simp
      next
        case nq: False
        have "ended (tasks s ! i)" if "i < length (tasks s)" for i
          using that False nq
          by (cases "task_state (tasks s ! i)") (auto simp: holds_slot_def ended_def)
        then show ?thesis by (simp add: list_all_length)
      qed
    qed
    then show ?thesis using running queued ended by blast
  qed
  then show ?thesis
  proof cases
    case (running i)
    then obtain wp where wp: "task_state (tasks s ! i) = Running wp"
      by (auto simp: holds_slot_def split: task_state.splits)
    from w running(1) wp have "waits wp"
      by (auto simp: waiting_inv_def list_all_length split: task_state.splits)
    then have "update_example_status_resume (task_example (tasks s ! i)) wp
                 (RpcRaised (RpcError [])) =
               Some (task_example (tasks s ! i), Raising (RpcError []))"
      by (cases wp) (simp_all add: waits_def)
    with running(1) wp assms(3) show ?thesis
      by (intro exI[of _ "Answer i (RpcRaised (RpcError []))"]) (simp add: step_def)
  next
    case (queued i)
    from no_running_in_flight[OF queued(3)] slot n have "0 < semaphore s"
      by (simp add: in_flight_def)
    with queued(1,2) assms(3) show ?thesis
      by (intro exI[of _ "Acquire i"])
         (auto simp: step_def split: wait_point.splits)
  next
    case ended
    from all_ended_gather[OF this] assms(3) show ?thesis
      by (intro exI[of _ Gather]) (auto simp: step_def)
  qed
qed

lemma run_append:
  "run etv s (xs @ ys) = (case run etv s xs of None \<Rightarrow> None | Some s' \<Rightarrow> run etv s' ys)"
  by (induction xs arbitrary: s) (auto split: option.splits)

lemma after_tasks_nth:
  assumes "k < length exs"
  shows "tasks (after_tasks n exs k) ! k = queued_task (exs ! k)"
    and "k < length (tasks (after_tasks n exs k))"
  using assms by (simp_all add: after_tasks_def nth_append)

lemma after_tasks_update:
  assumes "k < length exs"
  shows "(map finished_task (take k exs) @ map queued_task (drop k exs))[k := finished_task (exs ! k)]
         = map finished_task (take (Suc k) exs) @ map queued_task (drop (Suc k) exs)"
proof -
  from assms have d: "drop k exs = exs ! k # drop (Suc k) exs"
    by (simp add: Cons_nth_drop_Suc)
  from assms have t: "take (Suc k) exs = take k exs @ [exs ! k]"
    by (simp add: take_Suc_conv_app_nth)
  from assms have l: "length (map finished_task (take k exs)) = k" by simp
  show ?thesis
    unfolding d t using l by (simp add: list_update_append)
qed

lemma immediate_task:
  assumes "k < length exs" and "0 < n"
      and "update_example_status_begin etv (exs ! k) = AwaitRunCode ds"
  shows "run etv (after_tasks n exs k) (immediate_events k) = Some (after_tasks n exs (Suc k))"
proof -
  let ?ts = "map finished_task (take k exs) @ map queued_task (drop k exs)"
  have nth: "?ts ! k = queued_task (exs ! k)" and len: "k < length ?ts"
    using after_tasks_nth[OF assms(1), of n] by (simp_all add: after_tasks_def)
  have s1: "step etv (after_tasks n exs k) (Acquire k) =
      Some \<lparr>semaphore = n - 1,
            tasks = ?ts[k := \<lparr>task_example = exs ! k, task_state = Running (AwaitRunCode ds)\<rparr>],
            batch = Gathering\<rparr>"
    using nth len assms(2,3) by (simp add: step_def after_tasks_def queued_task_def)
  have s2: "step etv \<lparr>semaphore = n - 1,
            tasks = ?ts[k := \<lparr>task_example = exs ! k, task_state = Running (AwaitRunCode ds)\<rparr>],
            batch = Gathering\<rparr> (Answer k (ReturnedId ''job'')) =
      Some \<lparr>semaphore = n - 1,
            tasks = ?ts[k := \<lparr>task_example = (exs ! k)\<lparr>pipeline_id := ''job''\<rparr>,
                             task_state = Running (AwaitStatus ''job'')\<rparr>],
            batch = Gathering\<rparr>"
    using len by (simp add: step_def)
  have s3: "step etv \<lparr>semaphore = n - 1,
            tasks = ?ts[k := \<lparr>task_example = (exs ! k)\<lparr>pipeline_id := ''job''\<rparr>,
                             task_state = Running (AwaitStatus ''job'')\<rparr>],
            batch = Gathering\<rparr> (Answer k (ReturnedStatus STATUS_FINISHED)) =
      Some \<lparr>semaphore = n,
            tasks = ?ts[k := finished_task (exs ! k)],
            batch = Gathering\<rparr>"
    using len assms(2) by (simp add: step_def non_terminal_def finished_task_def)
  show ?thesis
    unfolding immediate_events_def
    using s1 s2 s3 after_tasks_update[OF assms(1)]
    by (simp add: after_tasks_def)
qed

lemma immediate_tasks:
  assumes "0 < n"
      and "list_all (\<lambda>ex. \<exists>ds. update_example_status_begin etv ex = AwaitRunCode ds) exs"
      and "k \<le> length exs"
  shows "run etv (after_tasks n exs 0) (concat (map immediate_events [0..<k])) =
         Some (after_tasks n exs k)"
  using assms(3)
proof (induction k)
  case 0
  then show ?case by simp
next
  case (Suc k)
  then have k: "k < length exs" by simp
  with assms(2) obtain ds where "update_example_status_begin etv (exs ! k) = AwaitRunCode ds"
    by (auto simp: list_all_length)
  from immediate_task[OF k assms(1) this] Suc show ?case
    by (simp add: run_append)
qed

lemma get_statuses_returns:
  assumes "1 \<le> override_concurrency environ concurrency"
      and "list_all (\<lambda>ex. \<exists>ds. update_example_status_begin etv ex = AwaitRunCode ds) exs"
  shows "get_statuses etv environ exs concurrency (immediate_run (length exs)) =
           Inr (Some \<lparr>semaphore = nat (override_concurrency environ concurrency),
                       tasks = map finished_task exs, batch = Returned\<rparr>)"
proof -
  let ?n = "nat (override_concurrency environ concurrency)"
  from assms(1) have n: "0 < ?n" by simp
  have st: "get_statuses_start environ exs concurrency = Inr (after_tasks ?n exs 0)"
    using assms(1)
    by (simp add: get_statuses_start_def Semaphore_def after_tasks_def queued_task_def)
  have r: "run etv (after_tasks ?n exs 0) (concat (map immediate_events [0..<length exs])) =
           Some (after_tasks ?n exs (length exs))"
    using n assms(2) by (rule immediate_tasks) simp
  have g: "step etv (after_tasks ?n exs (length exs)) Gather =
           Some \<lparr>semaphore = ?n, tasks = map finished_task exs, batch = Returned\<rparr>"
    by (simp add: step_def after_tasks_def all_finished_def list_all_iff finished_task_def)
  show ?thesis
    unfolding get_statuses_def immediate_run_def using st r g by (simp add: run_append)
qed

text \<open>
  C1. With a concurrency limit of at least 1 (the limit the semaphore is created with, the
  override of the environment included): along every run of \<^verbatim>\<open>get_statuses\<close>, whatever the
  examples, the order of the events and the answers of the backend, the number of tasks past
  the semaphore (inside \<^verbatim>\<open>_update_example_status\<close>) never exceeds the limit; there is one
  task for every example; and once the batch call has returned, every task has finished and
  every example carries a status outside validating, preparing, compiling and executing,
  stored by its task, the example being otherwise as it was given. And the batch call does
  return: with a backend that answers at once, the run in which the tasks take their turns
  ends with the return of the batch call.
\<close>

theorem get_statuses_bounded:
  assumes "1 \<le> override_concurrency environ concurrency"
  shows "(\<forall>evs s. get_statuses etv environ exs concurrency evs = Inr (Some s) \<longrightarrow>
            int (in_flight s) \<le> override_concurrency environ concurrency \<and>
            length (tasks s) = length exs \<and>
            (batch s = Returned \<longrightarrow>
               (\<forall>i < length exs.
                  task_state (tasks s ! i) = Finished \<and>
                  status (task_example (tasks s ! i)) \<notin> set non_terminal \<and>
                  only_id_and_status (exs ! i) (task_example (tasks s ! i))))) \<and>
         (list_all (\<lambda>ex. \<exists>ds. update_example_status_begin etv ex = AwaitRunCode ds) exs \<longrightarrow>
            (\<exists>s. get_statuses etv environ exs concurrency (immediate_run (length exs)) = Inr (Some s) \<and>
                 batch s = Returned))"
  using get_statuses_safe[of etv environ exs concurrency]
    get_statuses_returns[OF assms, of etv exs]
  by simp

text \<open>
  Three examples under the limit 2 taken from the environment: a complete run, in which
  the third task acquires the semaphore only after the first has finished; and the run with
  a backend that answers at once.
\<close>

theorem get_statuses_bounded_witness:
  "1 \<le> override_concurrency [''BEAM_CONCURRENCY'' \<mapsto> ''2''] 10 \<and>
   override_concurrency [''BEAM_CONCURRENCY'' \<mapsto> ''2''] 10 = 2 \<and>
   get_statuses kafka_only [''BEAM_CONCURRENCY'' \<mapsto> ''2'']
     [foo_example, foo_example, foo_example] 10 three_jobs_events = Inr (Some three_jobs_final) \<and>
   int (in_flight three_jobs_final) \<le> 2 \<and>
   length (tasks three_jobs_final) = 3 \<and>
   batch three_jobs_final = Returned \<and>
   task_state (tasks three_jobs_final ! 1) = Finished \<and>
   status (task_example (tasks three_jobs_final ! 1)) \<notin> set non_terminal \<and>
   list_all (\<lambda>ex. \<exists>ds. update_example_status_begin kafka_only ex = AwaitRunCode ds)
     [foo_example, foo_example, foo_example] \<and>
   (\<exists>s. get_statuses kafka_only [''BEAM_CONCURRENCY'' \<mapsto> ''2'']
          [foo_example, foo_example, foo_example] 10 (immediate_run 3) = Inr (Some s) \<and>
        batch s = Returned)"
proof -
  have o: "override_concurrency [''BEAM_CONCURRENCY'' \<mapsto> ''2''] 10 = 2"
    by (simp add: override_concurrency_def py_int_2)
  then have n: "1 \<le> override_concurrency [''BEAM_CONCURRENCY'' \<mapsto> ''2''] 10" by simp
  have h: "get_statuses kafka_only [''BEAM_CONCURRENCY'' \<mapsto> ''2'']
     [foo_example, foo_example, foo_example] 10 three_jobs_events = Inr (Some three_jobs_final)"
    by (simp add: eval_step py_int_2 three_jobs_events_def three_jobs_final_def)
  have b: "batch three_jobs_final = Returned"
    by (simp add: three_jobs_final_def)
  have p: "list_all (\<lambda>ex. \<exists>ds. update_example_status_begin kafka_only ex = AwaitRunCode ds)
     [foo_example, foo_example, foo_example]"
    by (simp add: foo_begin)
  note t = get_statuses_bounded[OF n, of kafka_only "[foo_example, foo_example, foo_example]"]
  have l: "length [foo_example, foo_example, foo_example] = 3" by simp
  from t p have "\<exists>s. get_statuses kafka_only [''BEAM_CONCURRENCY'' \<mapsto> ''2'']
          [foo_example, foo_example, foo_example] 10
          (immediate_run (length [foo_example, foo_example, foo_example])) = Inr (Some s) \<and>
        batch s = Returned"
    by blast
  then have e: "\<exists>s. get_statuses kafka_only [''BEAM_CONCURRENCY'' \<mapsto> ''2'']
          [foo_example, foo_example, foo_example] 10 (immediate_run 3) = Inr (Some s) \<and>
        batch s = Returned"
    unfolding l .
  from t h have s: "int (in_flight three_jobs_final) \<le>
        override_concurrency [''BEAM_CONCURRENCY'' \<mapsto> ''2''] 10 \<and>
      length (tasks three_jobs_final) = length [foo_example, foo_example, foo_example] \<and>
      (batch three_jobs_final = Returned \<longrightarrow>
         (\<forall>i < length [foo_example, foo_example, foo_example].
            task_state (tasks three_jobs_final ! i) = Finished \<and>
            status (task_example (tasks three_jobs_final ! i)) \<notin> set non_terminal \<and>
            only_id_and_status ([foo_example, foo_example, foo_example] ! i)
              (task_example (tasks three_jobs_final ! i))))"
    by blast
  with b have "task_state (tasks three_jobs_final ! 1) = Finished \<and>
      status (task_example (tasks three_jobs_final ! 1)) \<notin> set non_terminal"
    by simp
  with s o n h b p e show ?thesis by simp
qed

text \<open>
  C9. At every point of every run of \<^verbatim>\<open>_update_example_status\<close> the record differs from
  the record it was started with at most in \<^verbatim>\<open>pipeline_id\<close> and \<^verbatim>\<open>status\<close>: the name,
  complexity, sdk, filepath, code, tag, url_vcs, url_notebook, logs, type, output,
  compile_output, graph, datasets and emulators are unchanged.
\<close>

theorem update_example_status_frame:
  assumes "update_example_status etv ex as = Some (ex', w)"
  shows "ex' = ex\<lparr>pipeline_id := pipeline_id ex', status := status ex'\<rparr> \<and>
         name ex' = name ex \<and> complexity ex' = complexity ex \<and> sdk ex' = sdk ex \<and>
         filepath ex' = filepath ex \<and> code ex' = code ex \<and> tag ex' = tag ex \<and>
         url_vcs ex' = url_vcs ex \<and> url_notebook ex' = url_notebook ex \<and>
         logs ex' = logs ex \<and> type ex' = type ex \<and> output ex' = output ex \<and>
         compile_output ex' = compile_output ex \<and> graph ex' = graph ex \<and>
         datasets ex' = datasets ex \<and> emulators ex' = emulators ex"
proof -
  from assms have "only_id_and_status ex ex'"
    unfolding update_example_status_def by (rule run_only_id_and_status)
  then obtain p st where "ex' = ex\<lparr>pipeline_id := p, status := st\<rparr>"
    unfolding only_id_and_status_def by blast
  then show ?thesis by simp
qed

text \<open>A run that submits, polls twice and stores the final status.\<close>

theorem update_example_status_frame_witness:
  "update_example_status kafka_only foo_example
     [ReturnedId ''p0'', ReturnedStatus STATUS_COMPILING, ReturnedStatus STATUS_FINISHED]
   = Some (foo_example\<lparr>pipeline_id := ''p0'', status := STATUS_FINISHED\<rparr>, Completed) \<and>
   output (foo_example\<lparr>pipeline_id := ''p0'', status := STATUS_FINISHED\<rparr>) = output foo_example \<and>
   logs (foo_example\<lparr>pipeline_id := ''p0'', status := STATUS_FINISHED\<rparr>) = logs foo_example \<and>
   code (foo_example\<lparr>pipeline_id := ''p0'', status := STATUS_FINISHED\<rparr>) = code foo_example"
proof -
  have h: "update_example_status kafka_only foo_example
     [ReturnedId ''p0'', ReturnedStatus STATUS_COMPILING, ReturnedStatus STATUS_FINISHED]
   = Some (foo_example\<lparr>pipeline_id := ''p0'', status := STATUS_FINISHED\<rparr>, Completed)"
    by (simp add: update_example_status_def foo_begin non_terminal_def)
  from update_example_status_frame[OF h] h show ?thesis by simp
qed

lemma first_failure_Some:
  "i < length ts \<Longrightarrow> task_state (ts ! i) = Failed e \<Longrightarrow> \<exists>e'. first_failure ts = Some e'"
proof (induction ts arbitrary: i)
  case Nil
  then show ?case by simp
next
  case (Cons t ts)
  show ?case
  proof (cases i)
    case 0
    with Cons.prems show ?thesis by simp
  next
    case (Suc j)
    with Cons.prems Cons.IH[of j] show ?thesis
      by (cases "task_state t") auto
  qed
qed

lemma not_all_finished:
  "i < length ts \<Longrightarrow> task_state (ts ! i) \<noteq> Finished \<Longrightarrow> \<not> all_finished ts"
  by (auto simp: all_finished_def list_all_length)

text \<open>
  Two examples under the limit 1: the backend raises while the first job is submitted, the
  second task acquires the released slot and submits, and the gathering coroutine then
  collects the failed task. The batch call has raised, while the second task is still
  waiting for its job identifier and has stored no status.
\<close>

theorem get_statuses_raises_early:
  "get_statuses kafka_only Map.empty [foo_example, foo_example] 1 failed_first_events
     = Inr (Some failed_first_final) \<and>
   batch failed_first_final = Raised (RpcError ''unavailable'') \<and>
   task_state (tasks failed_first_final ! 1) = Running (AwaitRunCode []) \<and>
   \<not> ended (tasks failed_first_final ! 1) \<and>
   status (task_example (tasks failed_first_final ! 1)) = STATUS_UNSPECIFIED"
  by (simp add: eval_step failed_first_events_def failed_first_final_def ended_def
      foo_example_def update_example_status_begin_def)

text \<open>
  C2, as the code has it. When the backend raises inside the task of one example (while the
  job is submitted or its status checked), the task is marked failed and its slot of the
  semaphore is released, and no sibling task changes, neither its state nor its record: the
  siblings are neither cancelled nor blocked by the failure. The batch call, however, does
  not wait for them: from then on the gathering coroutine raises as soon as it runs, whatever
  the state of the other tasks.
\<close>

theorem failure_releases_slot_and_ends_batch:
  assumes "step etv s (Answer i (RpcRaised e)) = Some s'"
  shows "task_state (tasks s' ! i) = Failed e \<and>
         semaphore s' = semaphore s + 1 \<and>
         (\<forall>j. j \<noteq> i \<longrightarrow> tasks s' ! j = tasks s ! j) \<and>
         (\<exists>e'. step etv s' Gather = Some (s'\<lparr>batch := Raised e'\<rparr>))"
  using assms
proof (cases rule: step_cases)
  case (fin j w a ex')
  with resume_cases[OF fin(5)] show ?thesis by auto
next
  case (cont j w a ex' w')
  with resume_cases[OF cont(5)] show ?thesis by auto
next
  case (fail j w a ex' e2)
  from fail(1) have ij: "j = i" and a: "a = RpcRaised e" by simp_all
  from resume_cases[OF fail(5)] a have e2: "e2 = e" by auto
  have st: "task_state (tasks s' ! i) = Failed e"
    using fail ij e2 by simp
  have len: "i < length (tasks s')" using fail ij by simp
  from first_failure_Some[OF len st] obtain e' where ff: "first_failure (tasks s') = Some e'" ..
  from not_all_finished[OF len] st have naf: "\<not> all_finished (tasks s')" by simp
  have b: "batch s' = Gathering" using fail by simp
  have g: "step etv s' Gather = Some (s'\<lparr>batch := Raised e'\<rparr>)"
    using ff naf b by (simp add: step_def)
  from st fail ij g show ?thesis by auto
qed simp_all

text \<open>The first of two tasks fails while the second is still queued.\<close>

theorem failure_releases_slot_and_ends_batch_witness:
  "step kafka_only one_running (Answer 0 (RpcRaised (RpcError ''unavailable''))) = Some one_failed \<and>
   task_state (tasks one_failed ! 0) = Failed (RpcError ''unavailable'') \<and>
   semaphore one_failed = semaphore one_running + 1 \<and>
   tasks one_failed ! 1 = tasks one_running ! 1 \<and>
   (\<exists>e'. step kafka_only one_failed Gather = Some (one_failed\<lparr>batch := Raised e'\<rparr>))"
proof -
  have h: "step kafka_only one_running (Answer 0 (RpcRaised (RpcError ''unavailable''))) = Some one_failed"
    by (simp add: step_def one_running_def one_failed_def)
  from failure_releases_slot_and_ends_batch[OF h] h show ?thesis by simp
qed

text \<open>
  The override \<^verbatim>\<open>BEAM_CONCURRENCY=-1\<close> is accepted by \<^verbatim>\<open>int\<close>, and the semaphore is
  created with it: \<^verbatim>\<open>get_statuses\<close> raises \<^verbatim>\<open>ValueError\<close> instead of falling back to the
  caller's limit of 10.
\<close>

theorem negative_override_raises:
  "py_int ''-1'' = Some (- 1) \<and>
   get_statuses kafka_only [''BEAM_CONCURRENCY'' \<mapsto> ''-1''] [foo_example] 10 []
     = Inl (ValueError ''Semaphore initial value must be >= 0'')"
  by (simp add: eval_step py_int_minus_1)

text \<open>
  C8, as the code has it. \<^verbatim>\<open>get_statuses\<close> keeps the caller's concurrency when the
  variable \<^verbatim>\<open>BEAM_CONCURRENCY\<close> is not set and when \<^verbatim>\<open>int\<close> rejects its value, without
  raising; it takes the integer of the variable whenever \<^verbatim>\<open>int\<close> accepts the value, whatever
  the integer; and the call raises \<^verbatim>\<open>ValueError\<close> before any task starts exactly when the
  limit it ends up with is negative.
\<close>

theorem override_concurrency_effect:
  "(environ ''BEAM_CONCURRENCY'' = None \<longrightarrow> override_concurrency environ c = c) \<and>
   (\<forall>v. environ ''BEAM_CONCURRENCY'' = Some v \<longrightarrow> py_int v = None \<longrightarrow>
        override_concurrency environ c = c) \<and>
   (\<forall>v n. environ ''BEAM_CONCURRENCY'' = Some v \<longrightarrow> py_int v = Some n \<longrightarrow>
        override_concurrency environ c = n) \<and>
   get_statuses etv environ exs c [] =
     (if override_concurrency environ c < 0
      then Inl (ValueError ''Semaphore initial value must be >= 0'')
      else Inr (Some \<lparr>semaphore = nat (override_concurrency environ c),
                       tasks = map (\<lambda>ex. \<lparr>task_example = ex, task_state = Queued\<rparr>) exs,
                       batch = Gathering\<rparr>))"
  by (simp add: override_concurrency_def get_statuses_def get_statuses_start_def Semaphore_def)

text \<open>The variable unset, set to \<^verbatim>\<open>ten\<close> and set to \<^verbatim>\<open>2\<close>.\<close>

theorem override_concurrency_effect_witness:
  "override_concurrency Map.empty 10 = 10 \<and>
   py_int ''ten'' = None \<and> override_concurrency [''BEAM_CONCURRENCY'' \<mapsto> ''ten''] 10 = 10 \<and>
   py_int ''2'' = Some 2 \<and> override_concurrency [''BEAM_CONCURRENCY'' \<mapsto> ''2''] 10 = 2 \<and>
   get_statuses kafka_only [''BEAM_CONCURRENCY'' \<mapsto> ''ten''] [foo_example] 10 [] =
     Inr (Some \<lparr>semaphore = 10,
                 tasks = [\<lparr>task_example = foo_example, task_state = Queued\<rparr>],
                 batch = Gathering\<rparr>)"
  using override_concurrency_effect[of Map.empty 10 kafka_only "[foo_example]"]
    override_concurrency_effect[of "[''BEAM_CONCURRENCY'' \<mapsto> ''ten'']" 10 kafka_only "[foo_example]"]
    override_concurrency_effect[of "[''BEAM_CONCURRENCY'' \<mapsto> ''2'']" 10 kafka_only "[foo_example]"]
  by (simp add: py_int_2 py_int_ten_bad)

section \<open>Tags and files: results\<close>

text \<open>
  C10. For a path that ends with \<^verbatim>\<open>infrastructure/helper.py\<close>, \<^verbatim>\<open>_check_file\<close> returns
  \<^verbatim>\<open>False\<close> whatever the file system holds, the file name, the categories and the SDK are:
  it opens no file, logs nothing and leaves the list of examples as it was.
\<close>

theorem check_file_skips_helper:
  assumes "endswith path ''infrastructure/helper.py''"
  shows "check_file cfg environ fs exs file_name path supported_categories sdk0
           = (Inr (False, exs), [], [])"
  using assms by (simp add: check_file_def)




lemma required_messages_missing:
  "f \<in> set fs \<Longrightarrow> f \<notin> set (map fst d) \<Longrightarrow> MissingField f \<in> set (required_messages d fs v)"
  by (induction fs arbitrary: v) auto





lemma get_tag_loop_accumulating:
  "\<exists>k \<le> length lines.
     (\<forall>j < k. \<exists>obj. yaml_load cfg (y @ concat (map format_line (take (Suc j) lines))) = Inr obj) \<and>
     (if k < length lines then
        (\<exists>e. yaml_load cfg (y @ concat (map format_line (take (Suc k) lines))) = Inl e \<and>
              get_tag_loop cfg True y t lines =
                (if e = YAMLError
                 then Inr (True, y @ concat (map format_line (take k lines)), t @ concat (take k lines))
                 else Inl e))
      else get_tag_loop cfg True y t lines =
             Inr (True, y @ concat (map format_line lines), t @ concat lines))"
proof (induction lines arbitrary: y t)
  case Nil
  then show ?case by simp
next
  case (Cons l ls)
  show ?case
  proof (cases "yaml_load cfg (y @ format_line l)")
    case (Inl e)
    have "get_tag_loop cfg True y t (l # ls) = (if e = YAMLError then Inr (True, y, t) else Inl e)"
      using Inl by (cases e) simp_all
    with Inl show ?thesis
      by (intro exI[of _ 0]) simp
  next
    case (Inr obj)
    from Cons.IH[of "y @ format_line l" "t @ l"] obtain k where k: "k \<le> length ls"
      and acc: "\<forall>j < k. \<exists>obj. yaml_load cfg
                  ((y @ format_line l) @ concat (map format_line (take (Suc j) ls))) = Inr obj"
      and fin: "if k < length ls then
        (\<exists>e. yaml_load cfg ((y @ format_line l) @ concat (map format_line (take (Suc k) ls))) = Inl e \<and>
              get_tag_loop cfg True (y @ format_line l) (t @ l) ls =
                (if e = YAMLError
                 then Inr (True, (y @ format_line l) @ concat (map format_line (take k ls)),
                           (t @ l) @ concat (take k ls))
                 else Inl e))
      else get_tag_loop cfg True (y @ format_line l) (t @ l) ls =
             Inr (True, (y @ format_line l) @ concat (map format_line ls), (t @ l) @ concat ls)"
      by blast
    have step: "get_tag_loop cfg True y t (l # ls) =
                get_tag_loop cfg True (y @ format_line l) (t @ l) ls"
      using Inr by simp
    have acc': "\<exists>obj. yaml_load cfg (y @ concat (map format_line (take (Suc j) (l # ls)))) = Inr obj"
      if "j < Suc k" for j
    proof (cases j)
      case 0
      with Inr show ?thesis by simp
    next
      case (Suc i)
      with that have "i < k" by simp
      with acc Suc show ?thesis by simp
    qed
    show ?thesis
      apply (rule exI[of _ "Suc k"])
      using k acc' fin step by (auto split: if_splits)
  qed
qed

lemma get_tag_loop_scan:
  "list_all (\<lambda>l. lstrip (format_line l) \<noteq> BEAM_PLAYGROUND_TITLE cfg) pre \<Longrightarrow>
   get_tag_loop cfg False y t (pre @ ls) = get_tag_loop cfg False y t ls"
  by (induction pre) (simp_all add: Let_def)

lemma get_tag_loop_marker:
  "lstrip (format_line m) = BEAM_PLAYGROUND_TITLE cfg \<Longrightarrow>
   get_tag_loop cfg False y t (m # rest) =
   get_tag_loop cfg True (y @ BEAM_PLAYGROUND_TITLE cfg) (t @ m) rest"
  by (simp add: Let_def)

text \<open>
  C4, as the code has it. After the marker line has matched, \<^verbatim>\<open>get_tag\<close> keeps the
  first \<open>k\<close> of the lines that follow: for each of them the candidate, which is the marker
  line followed by the formatted lines up to and including that line, was parsed by the
  loader; and either the lines end there, or parsing the candidate with the next line raised:
  with \<^verbatim>\<open>YAMLError\<close> the loop stops and the raw text ends before that line, any other
  exception leaves the function.
\<close>

theorem get_tag_loop_stops_at_first_failure:
  assumes "list_all (\<lambda>l. lstrip (format_line l) \<noteq> BEAM_PLAYGROUND_TITLE cfg) pre"
      and "lstrip (format_line m) = BEAM_PLAYGROUND_TITLE cfg"
  shows "\<exists>k \<le> length rest.
     (\<forall>j < k. \<exists>obj. yaml_load cfg
         (BEAM_PLAYGROUND_TITLE cfg @ concat (map format_line (take (Suc j) rest))) = Inr obj) \<and>
     (if k < length rest then
        (\<exists>e. yaml_load cfg
                (BEAM_PLAYGROUND_TITLE cfg @ concat (map format_line (take (Suc k) rest))) = Inl e \<and>
              get_tag_loop cfg False [] [] (pre @ m # rest) =
                (if e = YAMLError
                 then Inr (True, BEAM_PLAYGROUND_TITLE cfg @ concat (map format_line (take k rest)),
                           m @ concat (take k rest))
                 else Inl e))
      else get_tag_loop cfg False [] [] (pre @ m # rest) =
             Inr (True, BEAM_PLAYGROUND_TITLE cfg @ concat (map format_line rest), m @ concat rest))"
proof -
  have eq: "get_tag_loop cfg False [] [] (pre @ m # rest) =
        get_tag_loop cfg True (BEAM_PLAYGROUND_TITLE cfg) m rest"
    using get_tag_loop_scan[OF assms(1)] get_tag_loop_marker[OF assms(2), of "[]" "[]"] by simp
  show ?thesis
    unfolding eq by (rule get_tag_loop_accumulating)
qed

lemmas eval_fmt = format_line_def lstrip_def py_isspace_def newline_def tab_def
  title_line_def foo_flow_def

lemma fmt_title_slashes:
  "format_line ''// Beam-playground:\<newline>'' = '' Beam-playground:\<newline>''"
  by (simp add: eval_fmt)

lemma fmt_title_hash:
  "format_line ''# Beam-playground:\<newline>'' = '' Beam-playground:\<newline>''"
  by (simp add: eval_fmt)

lemma fmt_import: "format_line ''import foo\<newline>'' = ''import foo\<newline>''"
  by (simp add: eval_fmt)

lemma fmt_notebook:
  "format_line ''//   url_notebook: https://x\<newline>'' = ''   url_notebook: https:x\<newline>''"
  by (simp add: eval_fmt)

lemma fmt_foo: "format_line (''//   '' @ foo_flow @ ''\<newline>'') = ''   '' @ foo_flow @ ''\<newline>''"
  by (simp add: eval_fmt)

lemma fmt_class: "format_line ''class Foo {}\<newline>'' = ''class Foo {}\<newline>''"
  by (simp add: eval_fmt)

lemma lstrip_title: "lstrip '' Beam-playground:\<newline>'' = ''Beam-playground:\<newline>''"
  by (simp add: lstrip_def py_isspace_def)

lemma lstrip_import: "lstrip ''import foo\<newline>'' = ''import foo\<newline>''"
  by (simp add: lstrip_def py_isspace_def)

lemma lstrip_class: "lstrip ''class Foo {}\<newline>'' = ''class Foo {}\<newline>''"
  by (simp add: lstrip_def py_isspace_def)

lemma beam_title: "BEAM_PLAYGROUND_TITLE beam_config = ''Beam-playground:\<newline>''"
  and beam_key: "BEAM_PLAYGROUND beam_config = ''Beam-playground''"
  and beam_load: "yaml_load beam_config = sample_load"
  by (simp_all add: beam_config_def)

lemma load_title: "sample_load ''Beam-playground:\<newline>'' = Inr (YMap [(''Beam-playground'', YNull)])"
  by (simp add: sample_load_def)

lemma load_title_import: "sample_load ''Beam-playground:\<newline>import foo\<newline>'' = Inl YAMLError"
  by (simp add: sample_load_def foo_flow_def)

lemma load_import: "sample_load ''import foo\<newline>'' = Inr (YStr ''import foo'')"
  by (simp add: sample_load_def foo_flow_def)

lemma load_notebook:
  "sample_load ''Beam-playground:\<newline>   url_notebook: https:x\<newline>'' =
     Inr (YMap [(''Beam-playground'', YMap [(''url_notebook'', YStr ''https:x'')])])"
  "sample_load ''Beam-playground:\<newline>   url_notebook: https://x\<newline>'' =
     Inr (YMap [(''Beam-playground'', YMap [(''url_notebook'', YStr ''https://x'')])])"
  by (simp_all add: sample_load_def foo_flow_def)

lemma load_foo:
  "sample_load (''Beam-playground:\<newline>   '' @ foo_flow @ ''\<newline>'') =
     Inr (YMap [(''Beam-playground'', YMap foo_dict)])"
  "sample_load (''Beam-playground:\<newline>   '' @ foo_flow) =
     Inr (YMap [(''Beam-playground'', YMap foo_dict)])"
  by (simp_all add: sample_load_def)

lemma load_foo_class:
  "sample_load (''Beam-playground:\<newline>   '' @ foo_flow @ ''\<newline>class Foo {}\<newline>'') = Inl YAMLError"
  by (simp add: sample_load_def foo_flow_def)

text \<open>
  A marker line followed by the line \<^verbatim>\<open>import foo\<close>. The code parses the marker line
  together with the line, which is no YAML, and stops with the marker line alone. Parsing
  the candidate without the marker line, as the specification has it, accepts the line of
  code as a scalar and keeps it in the raw text.
\<close>

theorem spec_loop_keeps_code_line:
  "get_tag_loop beam_config False [] [] import_lines =
     Inr (True, ''Beam-playground:\<newline>'', ''# Beam-playground:\<newline>'') \<and>
   get_tag_loop_spec beam_config False [] [] import_lines =
     Inr (True, ''Beam-playground:\<newline>import foo\<newline>'',
          ''# Beam-playground:\<newline>import foo\<newline>'')"
  by (simp add: import_lines_def fmt_title_hash fmt_import lstrip_title Let_def
      beam_title beam_load load_title_import load_import)

lemma replace_char_absent: "c \<notin> set s \<Longrightarrow> replace [c] new s = s"
  by (induction s) auto

lemma replace_slashes_absent: "\<not> is_substring ''//'' s \<Longrightarrow> replace ''//'' [] s = s"
  by (induction s) auto

lemma format_line_clean: "clean l \<Longrightarrow> format_line l = l"
  by (simp add: clean_def format_line_def replace_char_absent replace_slashes_absent)

lemma format_line_commented:
  assumes "m = ''//'' \<or> m = ''#''" and "clean l"
  shows "format_line (m @ l) = l"
proof -
  from assms(2) have a: "replace ''//'' [] l = l" and b: "replace ''#'' [] l = l"
    and c: "replace [tab] ''    '' l = l"
    by (simp_all add: clean_def replace_char_absent replace_slashes_absent)
  from assms(1) show ?thesis
  proof
    assume "m = ''//''"
    then show ?thesis using a b c by (simp add: format_line_def)
  next
    assume "m = ''#''"
    then show ?thesis using a b c by (simp add: format_line_def)
  qed
qed

lemma get_tag_loop_block:
  assumes "m = ''//'' \<or> m = ''#''" and "list_all clean rest"
      and "\<forall>k. 0 < k \<and> k \<le> length rest \<longrightarrow> (\<exists>obj. yaml_load cfg (y @ concat (take k rest)) = Inr obj)"
  shows "get_tag_loop cfg True y t (map ((@) m) rest @ post) =
         get_tag_loop cfg True (y @ concat rest) (t @ concat (map ((@) m) rest)) post"
  using assms(2,3)
proof (induction rest arbitrary: y t)
  case Nil
  then show ?case by simp
next
  case (Cons l ls)
  from Cons.prems(1) have cl: "clean l" and cls: "list_all clean ls" by simp_all
  have f: "format_line (m @ l) = l" using assms(1) cl by (rule format_line_commented)
  from Cons.prems(2)[rule_format, of 1] obtain obj where o: "yaml_load cfg (y @ l) = Inr obj"
    by auto
  have rest: "\<forall>k. 0 < k \<and> k \<le> length ls \<longrightarrow>
                (\<exists>obj. yaml_load cfg ((y @ l) @ concat (take k ls)) = Inr obj)"
  proof (intro allI impI)
    fix k assume "0 < k \<and> k \<le> length ls"
    then have "0 < Suc k \<and> Suc k \<le> length (l # ls)" by simp
    from Cons.prems(2)[rule_format, OF this] show "\<exists>obj. yaml_load cfg ((y @ l) @ concat (take k ls)) = Inr obj"
      by simp
  qed
  from Cons.IH[OF cls rest, of "t @ m @ l"] f o show ?case by (simp add: Let_def)
qed

text \<open>
  Where the extraction does not depend on the comment marker, and gives what the bare
  block gives. Take a metadata block whose lines hold no \<^verbatim>\<open>//\<close>, no
  \<^verbatim>\<open>#\<close> and no tab, whose first line is the marker line (after leading white space), and
  of which the marker line followed by the first \<open>k\<close> lines parses for every \<open>k\<close>; write
  the comment marker \<^verbatim>\<open>//\<close> or \<^verbatim>\<open>#\<close> in front of every line, and let the block be
  followed by nothing or by a line with which it does not parse. Then \<^verbatim>\<open>get_tag\<close> returns
  what parsing the bare block (the marker line without its leading white space, then the
  other lines) gives under the key of the tag, whichever of the two markers was used, and
  the raw text is the commented block.
\<close>

theorem get_tag_marker_invariant:
  assumes m: "m = ''//'' \<or> m = ''#''"
      and clean: "list_all clean (first # rest)"
      and first: "lstrip first = BEAM_PLAYGROUND_TITLE cfg"
      and pre: "list_all (\<lambda>l. lstrip (format_line l) \<noteq> BEAM_PLAYGROUND_TITLE cfg) pre"
      and parses: "\<forall>k. 0 < k \<and> k \<le> length rest \<longrightarrow>
                     (\<exists>obj. yaml_load cfg (BEAM_PLAYGROUND_TITLE cfg @ concat (take k rest)) = Inr obj)"
      and post: "case post of [] \<Rightarrow> True
                 | p # ps \<Rightarrow> yaml_load cfg (BEAM_PLAYGROUND_TITLE cfg @ concat rest @ format_line p)
                               = Inl YAMLError"
  shows "get_tag_lines cfg (pre @ map ((@) m) (first # rest) @ post) =
           (case yaml_load cfg (BEAM_PLAYGROUND_TITLE cfg @ concat rest) of
              Inl e \<Rightarrow> Inl e
            | Inr obj \<Rightarrow>
                (case subscript obj (BEAM_PLAYGROUND cfg) of
                   Inl e \<Rightarrow> Inl e
                 | Inr v \<Rightarrow> Inr (Some \<lparr>tag_as_dict = v,
                                      tag_as_string = concat (map ((@) m) (first # rest))\<rparr>)))"
proof -
  from clean have cf: "clean first" and cr: "list_all clean rest" by simp_all
  have ff: "format_line (m @ first) = first" using m cf by (rule format_line_commented)
  have a: "get_tag_loop cfg False [] [] (pre @ map ((@) m) (first # rest) @ post) =
           get_tag_loop cfg True (BEAM_PLAYGROUND_TITLE cfg) (m @ first) (map ((@) m) rest @ post)"
    using get_tag_loop_scan[OF pre, of "[]" "[]" "(m @ first) # map ((@) m) rest @ post"]
      get_tag_loop_marker[of "m @ first" cfg "[]" "[]" "map ((@) m) rest @ post"] ff first
    by simp
  have b: "get_tag_loop cfg True (BEAM_PLAYGROUND_TITLE cfg) (m @ first) (map ((@) m) rest @ post) =
           get_tag_loop cfg True (BEAM_PLAYGROUND_TITLE cfg @ concat rest)
             ((m @ first) @ concat (map ((@) m) rest)) post"
    using m cr parses by (rule get_tag_loop_block)
  have c: "get_tag_loop cfg True (BEAM_PLAYGROUND_TITLE cfg @ concat rest)
             ((m @ first) @ concat (map ((@) m) rest)) post =
           Inr (True, BEAM_PLAYGROUND_TITLE cfg @ concat rest, (m @ first) @ concat (map ((@) m) rest))"
    using post by (cases post) (simp_all add: Let_def)
  show ?thesis
    unfolding get_tag_lines_def a b c by (simp split: sum.splits)
qed

lemma clean_title: "clean '' Beam-playground:\<newline>''"
  by (simp add: clean_def tab_def)

lemma clean_foo: "clean (''   '' @ foo_flow @ ''\<newline>'')"
  by (simp add: clean_def tab_def foo_flow_def)

lemma fmt_package: "lstrip (format_line ''package demo;\<newline>'') = ''package demo;\<newline>''"
  by (simp add: eval_fmt)

text \<open>
  The block of \<^verbatim>\<open>foo.java\<close>, once behind \<^verbatim>\<open>//\<close> and once behind \<^verbatim>\<open>#\<close>.
\<close>

theorem get_tag_marker_invariant_witness:
  "list_all clean ['' Beam-playground:\<newline>'', ''   '' @ foo_flow @ ''\<newline>''] \<and>
   lstrip '' Beam-playground:\<newline>'' = BEAM_PLAYGROUND_TITLE beam_config \<and>
   list_all (\<lambda>l. lstrip (format_line l) \<noteq> BEAM_PLAYGROUND_TITLE beam_config)
     [''package demo;\<newline>''] \<and>
   yaml_load beam_config (BEAM_PLAYGROUND_TITLE beam_config @ ''   '' @ foo_flow @ ''\<newline>'')
     = Inr (YMap [(''Beam-playground'', YMap foo_dict)]) \<and>
   yaml_load beam_config (BEAM_PLAYGROUND_TITLE beam_config @ ''   '' @ foo_flow @ ''\<newline>'' @
       format_line ''class Foo {}\<newline>'') = Inl YAMLError \<and>
   get_tag_lines beam_config
     (''package demo;\<newline>'' #
      map ((@) ''//'') ['' Beam-playground:\<newline>'', ''   '' @ foo_flow @ ''\<newline>''] @
      [''class Foo {}\<newline>'']) =
     Inr (Some \<lparr>tag_as_dict = YMap foo_dict,
                 tag_as_string = ''// Beam-playground:\<newline>'' @ ''//   '' @ foo_flow @ ''\<newline>''\<rparr>) \<and>
   get_tag_lines beam_config
     (''package demo;\<newline>'' #
      map ((@) ''#'') ['' Beam-playground:\<newline>'', ''   '' @ foo_flow @ ''\<newline>''] @
      [''class Foo {}\<newline>'']) =
     Inr (Some \<lparr>tag_as_dict = YMap foo_dict,
                 tag_as_string = ''# Beam-playground:\<newline>'' @ ''#   '' @ foo_flow @ ''\<newline>''\<rparr>)"
proof -
  have c: "list_all clean ['' Beam-playground:\<newline>'', ''   '' @ foo_flow @ ''\<newline>'']"
    using clean_title clean_foo by simp
  have f: "lstrip '' Beam-playground:\<newline>'' = BEAM_PLAYGROUND_TITLE beam_config"
    by (simp add: lstrip_title beam_title)
  have p: "list_all (\<lambda>l. lstrip (format_line l) \<noteq> BEAM_PLAYGROUND_TITLE beam_config)
             [''package demo;\<newline>'']"
    by (simp add: fmt_package beam_title)
  have l1: "yaml_load beam_config (BEAM_PLAYGROUND_TITLE beam_config @ ''   '' @ foo_flow @ ''\<newline>'')
     = Inr (YMap [(''Beam-playground'', YMap foo_dict)])"
    using load_foo(1) by (simp add: beam_title beam_load)
  have l2: "yaml_load beam_config (BEAM_PLAYGROUND_TITLE beam_config @ ''   '' @ foo_flow @ ''\<newline>'' @
       format_line ''class Foo {}\<newline>'') = Inl YAMLError"
    using load_foo_class by (simp add: beam_title beam_load fmt_class)
  have ps: "\<forall>k. 0 < k \<and> k \<le> length [''   '' @ foo_flow @ ''\<newline>''] \<longrightarrow>
              (\<exists>obj. yaml_load beam_config (BEAM_PLAYGROUND_TITLE beam_config @
                        concat (take k [''   '' @ foo_flow @ ''\<newline>''])) = Inr obj)"
  proof (intro allI impI)
    fix k :: nat assume "0 < k \<and> k \<le> length [''   '' @ foo_flow @ ''\<newline>'']"
    then have "k = 1" by simp
    with l1 show "\<exists>obj. yaml_load beam_config (BEAM_PLAYGROUND_TITLE beam_config @
                        concat (take k [''   '' @ foo_flow @ ''\<newline>''])) = Inr obj"
      by simp
  qed
  have po: "case [''class Foo {}\<newline>''] of [] \<Rightarrow> True
            | p # ps \<Rightarrow> yaml_load beam_config (BEAM_PLAYGROUND_TITLE beam_config @
                 concat [''   '' @ foo_flow @ ''\<newline>''] @ format_line p) = Inl YAMLError"
    using l2 by simp
  have m1: "''//'' = ''//'' \<or> ''//'' = ''#''" by simp
  have m2: "''#'' = ''//'' \<or> ''#'' = ''#''" by simp
  from get_tag_marker_invariant[OF m1 c f p ps po] get_tag_marker_invariant[OF m2 c f p ps po]
    c f p l1 l2
  show ?thesis by (simp add: subscript_def beam_key)
qed

lemma set_replace_empty: "set (replace old [] s) \<subseteq> set s"
proof (induction old "[] :: string" s rule: replace.induct)
  case (1 old)
  then show ?case by simp
next
  case (2 old c cs)
  show ?case
  proof (cases "old \<noteq> [] \<and> take (length old) (c # cs) = old")
    case True
    with 2(1) have "set (replace old [] (c # cs)) \<subseteq> set (drop (length old) (c # cs))"
      by simp
    then show ?thesis using set_drop_subset by fastforce
  next
    case False
    with 2(2) show ?thesis by auto
  qed
qed

lemma length_replace_empty: "length (replace old [] s) \<le> length s"
proof (induction old "[] :: string" s rule: replace.induct)
  case (1 old)
  then show ?case by simp
next
  case (2 old c cs)
  show ?case
  proof (cases "old \<noteq> [] \<and> take (length old) (c # cs) = old")
    case True
    with 2(1) have "length (replace old [] (c # cs)) \<le> length (drop (length old) (c # cs))"
      by simp
    then show ?thesis by simp
  next
    case False
    with 2(2) show ?thesis by auto
  qed
qed

lemma length_replace_slashes:
  "is_substring ''//'' s \<Longrightarrow> length (replace ''//'' [] s) + 2 \<le> length s"
proof (induction s)
  case Nil
  then show ?case by simp
next
  case (Cons c cs)
  show ?case
  proof (cases "take 2 (c # cs) = ''//''")
    case True
    then have r: "replace ''//'' [] (c # cs) = replace ''//'' [] (drop 2 (c # cs))"
      by simp
    from True have "length (take 2 (c # cs)) = 2" by simp
    then have "2 \<le> length (c # cs)" by (simp del: take_Suc_Cons)
    with r length_replace_empty[of "''//''" "drop 2 (c # cs)"] show ?thesis by simp
  next
    case False
    with Cons.prems have "is_substring ''//'' cs" by (auto simp: numeral_2_eq_2)
    from Cons.IH[OF this] False show ?thesis by (auto simp: numeral_2_eq_2)
  qed
qed

lemma no_tab_after_replace: "tab \<notin> set (replace [tab] ''    '' s)"
  by (induction s) (auto simp: tab_def)

text \<open>
  What the loader is given for a commented line that holds \<^verbatim>\<open>//\<close> after its comment
  marker is never the line without its marker, whatever the loader is.
\<close>

lemma format_line_alters_slashes:
  assumes "m = ''//'' \<or> m = ''#''" and "is_substring ''//'' l"
  shows "format_line (m @ l) \<noteq> l"
proof (cases "tab \<in> set l")
  case True
  with no_tab_after_replace[of "replace ''#'' [] (replace ''//'' [] (m @ l))"] show ?thesis
    unfolding format_line_def by metis
next
  case False
  let ?r = "replace ''#'' [] (replace ''//'' [] (m @ l))"
  have len: "length ?r + 2 \<le> length l"
  proof -
    from assms(1) show ?thesis
    proof
      assume "m = ''//''"
      then have "replace ''//'' [] (m @ l) = replace ''//'' [] l" by simp
      with length_replace_slashes[OF assms(2)] length_replace_empty[of "''#''" "replace ''//'' [] l"]
      show ?thesis by simp
    next
      assume "m = ''#''"
      then have "?r = replace ''#'' [] (replace ''//'' [] l)" by simp
      with length_replace_slashes[OF assms(2)] length_replace_empty[of "''#''" "replace ''//'' [] l"]
      show ?thesis by simp
    qed
  qed
  have "set ?r \<subseteq> set (m @ l)"
    using set_replace_empty[of "''#''" "replace ''//'' [] (m @ l)"]
      set_replace_empty[of "''//''" "m @ l"] by blast
  with assms(1) False have "tab \<notin> set ?r" by (auto simp: tab_def)
  then have "format_line (m @ l) = ?r"
    unfolding format_line_def by (rule replace_char_absent)
  with len show ?thesis by auto
qed

lemma readlines_notebook: "readlines (concat notebook_lines) = notebook_lines"
  by (simp add: notebook_lines_def newline_def)

text \<open>
  C3. A block of valid YAML behind the comment marker \<^verbatim>\<open>//\<close> whose field
  \<^verbatim>\<open>url_notebook\<close> is the URL \<^verbatim>\<open>https://x\<close>. Parsing the bare block gives the mapping with the URL, which is what
  extraction is to return for every valid block and every comment marker. But
  \<^verbatim>\<open>get_tag\<close> removes every \<^verbatim>\<open>//\<close> of the line, not the marker in front of it, hands
  \<^verbatim>\<open>url_notebook: https:x\<close> to the loader, and returns a mapping with \<^verbatim>\<open>https:x\<close>.
\<close>

theorem get_tag_strips_slashes_in_values:
  "format_line ''//   url_notebook: https://x\<newline>'' = ''   url_notebook: https:x\<newline>'' \<and>
   get_tag beam_config [''examples/nb.java'' \<mapsto> concat notebook_lines] ''examples/nb.java'' =
     Inr (Some \<lparr>tag_as_dict = YMap [(''url_notebook'', YStr ''https:x'')],
                 tag_as_string = ''// Beam-playground:\<newline>//   url_notebook: https://x\<newline>''\<rparr>) \<and>
   (case yaml_load beam_config ''Beam-playground:\<newline>   url_notebook: https://x\<newline>'' of
      Inl e \<Rightarrow> Inl e
    | Inr obj \<Rightarrow> subscript obj (BEAM_PLAYGROUND beam_config)) =
     Inr (YMap [(''url_notebook'', YStr ''https://x'')])"
  by (simp add: get_tag_def read_text_def readlines_notebook)
     (simp add: get_tag_lines_def notebook_lines_def fmt_title_slashes fmt_notebook lstrip_title
      Let_def beam_title beam_load beam_key load_notebook load_title subscript_def)

text \<open>
  The file \<^verbatim>\<open>foo.java\<close>: the tag ends before the line of code.
\<close>

theorem get_tag_loop_stops_at_first_failure_witness:
  "list_all (\<lambda>l. lstrip (format_line l) \<noteq> BEAM_PLAYGROUND_TITLE beam_config)
     [''package demo;\<newline>''] \<and>
   lstrip (format_line ''// Beam-playground:\<newline>'') = BEAM_PLAYGROUND_TITLE beam_config \<and>
   get_tag_loop beam_config False [] [] (''package demo;\<newline>'' # foo_lines) =
     Inr (True, ''Beam-playground:\<newline>'' @ ''   '' @ foo_flow @ ''\<newline>'',
          ''// Beam-playground:\<newline>'' @ ''//   '' @ foo_flow @ ''\<newline>'')"
proof -
  have p: "list_all (\<lambda>l. lstrip (format_line l) \<noteq> BEAM_PLAYGROUND_TITLE beam_config)
             [''package demo;\<newline>'']"
    by (simp add: fmt_package beam_title)
  have t: "lstrip (format_line ''// Beam-playground:\<newline>'') = BEAM_PLAYGROUND_TITLE beam_config"
    by (simp add: fmt_title_slashes lstrip_title beam_title)
  have e: "get_tag_loop beam_config False [] [] (''package demo;\<newline>'' # foo_lines) =
     Inr (True, ''Beam-playground:\<newline>'' @ ''   '' @ foo_flow @ ''\<newline>'',
          ''// Beam-playground:\<newline>'' @ ''//   '' @ foo_flow @ ''\<newline>'')"
    by (simp add: foo_lines_def eval_fmt beam_config_def sample_load_def Let_def)
  from get_tag_loop_stops_at_first_failure[OF p t,
      of "[''//   '' @ foo_flow @ ''\<newline>'', ''class Foo {}\<newline>'']"] p t e
  show ?thesis by simp
qed


lemma required_ok_foo: "required_ok foo_dict"
  by (simp add: required_ok_def required_tag_fields_def field_ok_def foo_dict_def dict_get_def)




text \<open>
  The helper's own path, with a file there that starts with the marker of a tag.
\<close>

theorem check_file_skips_helper_witness:
  "endswith ''playground/infrastructure/helper.py'' ''infrastructure/helper.py'' \<and>
   check_file beam_config Map.empty
     [''playground/infrastructure/helper.py'' \<mapsto> concat import_lines] [foo_example]
     ''helper.py'' ''playground/infrastructure/helper.py'' [''Quickstart''] SDK_PYTHON
   = (Inr (False, [foo_example]), [], [])"
proof -
  have h: "endswith ''playground/infrastructure/helper.py'' ''infrastructure/helper.py''"
    by (simp add: endswith_def)
  from check_file_skips_helper[OF h] h show ?thesis by simp
qed

section \<open>Context line: results\<close>

lemma get_tag_loop_True_text:
  "get_tag_loop cfg True y t lines = Inr (a, y', t') \<Longrightarrow>
   \<exists>ls post. lines = ls @ post \<and> t' = t @ concat ls"
proof (induction lines arbitrary: y t)
  case Nil
  then show ?case by simp
next
  case (Cons l lines)
  show ?case
  proof (cases "yaml_load cfg (y @ format_line l)")
    case (Inl e)
    with Cons.prems have "t' = t" by (cases e) (simp_all add: Let_def)
    then have "l # lines = [] @ (l # lines) \<and> t' = t @ concat []" by simp
    then show ?thesis by blast
  next
    case (Inr obj)
    with Cons.prems have "get_tag_loop cfg True (y @ format_line l) (t @ l) lines = Inr (a, y', t')"
      by (simp add: Let_def)
    from Cons.IH[OF this] obtain ls post where "lines = ls @ post" "t' = (t @ l) @ concat ls"
      by blast
    then have "l # lines = (l # ls) @ post \<and> t' = t @ concat (l # ls)" by simp
    then show ?thesis by blast
  qed
qed

lemma get_tag_loop_False_text:
  "get_tag_loop cfg False y t lines = Inr (True, y', t') \<Longrightarrow>
   \<exists>pre ls post. lines = pre @ ls @ post \<and> ls \<noteq> [] \<and> t' = t @ concat ls"
proof (induction lines)
  case Nil
  then show ?case by simp
next
  case (Cons l lines)
  show ?case
  proof (cases "lstrip (format_line l) = BEAM_PLAYGROUND_TITLE cfg")
    case True
    with Cons.prems have "get_tag_loop cfg True (y @ BEAM_PLAYGROUND_TITLE cfg) (t @ l) lines
        = Inr (True, y', t')"
      by (simp add: Let_def)
    from get_tag_loop_True_text[OF this] obtain ls post where "lines = ls @ post"
      "t' = (t @ l) @ concat ls" by blast
    then have "l # lines = [] @ (l # ls) @ post \<and> l # ls \<noteq> [] \<and> t' = t @ concat (l # ls)"
      by simp
    then show ?thesis by blast
  next
    case False
    with Cons.prems have "get_tag_loop cfg False y t lines = Inr (True, y', t')"
      by (simp add: Let_def)
    from Cons.IH[OF this] obtain pre ls post where "lines = pre @ ls @ post" "ls \<noteq> []"
      "t' = t @ concat ls" by blast
    then have "l # lines = (l # pre) @ ls @ post \<and> ls \<noteq> [] \<and> t' = t @ concat ls" by simp
    then show ?thesis by blast
  qed
qed

lemma get_tag_lines_text:
  assumes "get_tag_lines cfg lines = Inr (Some t)"
  shows "\<exists>pre ls post. lines = pre @ ls @ post \<and> ls \<noteq> [] \<and> tag_as_string t = concat ls"
proof -
  from assms obtain y ts where l: "get_tag_loop cfg False [] [] lines = Inr (True, y, ts)"
    and t: "tag_as_string t = ts"
    by (auto simp: get_tag_lines_def split: sum.splits prod.splits if_splits)
  from get_tag_loop_False_text[OF l] t show ?thesis by simp
qed

lemma readlines_line:
  "l \<in> set (readlines s) \<Longrightarrow> l \<noteq> [] \<and> newline \<notin> set (butlast l)"
proof (induction s arbitrary: l)
  case Nil
  then show ?case by simp
next
  case (Cons c cs)
  show ?case
  proof (cases "c = newline")
    case True
    with Cons show ?thesis by auto
  next
    case False
    show ?thesis
    proof (cases "readlines cs")
      case Nil
      with False Cons.prems show ?thesis by simp
    next
      case (Cons l0 ls)
      from Cons Cons.IH[of l0] have l0: "l0 \<noteq> []" "newline \<notin> set (butlast l0)" by simp_all
      from Cons False Cons.prems have "l = c # l0 \<or> l \<in> set ls" by simp
      then show ?thesis
      proof
        assume "l = c # l0"
        with l0 False show ?thesis by simp
      next
        assume "l \<in> set ls"
        with Cons Cons.IH[of l] show ?thesis by simp
      qed
    qed
  qed
qed

lemma readlines_terminated:
  "l \<in> set (butlast (readlines s)) \<Longrightarrow> last l = newline"
proof (induction s arbitrary: l)
  case Nil
  then show ?case by simp
next
  case (Cons c cs)
  show ?case
  proof (cases "c = newline")
    case True
    with Cons show ?thesis by (auto split: if_splits)
  next
    case False
    show ?thesis
    proof (cases "readlines cs")
      case Nil
      with False Cons.prems show ?thesis by simp
    next
      case (Cons l0 ls)
      from Cons readlines_line[of l0 cs] have l0: "l0 \<noteq> []" by simp
      from Cons False Cons.prems have "ls \<noteq> []" and "l = c # l0 \<or> l \<in> set (butlast ls)"
        by (auto split: if_splits)
      then show ?thesis
      proof (elim disjE)
        assume "l = c # l0"
        moreover from Cons \<open>ls \<noteq> []\<close> have "l0 \<in> set (butlast (readlines cs))" by simp
        ultimately show ?thesis using Cons.IH[of l0] l0 by simp
      next
        assume "l \<in> set (butlast ls)"
        with Cons \<open>ls \<noteq> []\<close> have "l \<in> set (butlast (readlines cs))" by simp
        then show ?thesis by (rule Cons.IH)
      qed
    qed
  qed
qed

lemma count_line:
  assumes "l \<noteq> []" and "newline \<notin> set (butlast l)"
  shows "count_char newline l = (if last l = newline then 1 else 0)"
proof -
  from assms(1) have "l = butlast l @ [last l]" by simp
  then have "count_char newline l = count_char newline (butlast l) + count_char newline [last l]"
    unfolding count_char_def by (metis filter_append length_append)
  moreover from assms(2) have "count_char newline (butlast l) = 0"
    by (auto simp: count_char_def filter_empty_conv)
  ultimately show ?thesis by (simp add: count_char_def)
qed

lemma count_concat_terminated:
  assumes "\<forall>l \<in> set ls. l \<noteq> [] \<and> newline \<notin> set (butlast l) \<and> last l = newline"
  shows "count_char newline (concat ls) = length ls"
  using assms by (induction ls) (simp_all add: count_char_def count_line[unfolded count_char_def])

lemma count_concat_lines:
  assumes "ls \<noteq> []"
      and "\<forall>l \<in> set ls. l \<noteq> [] \<and> newline \<notin> set (butlast l)"
      and "\<forall>l \<in> set (butlast ls). last l = newline"
  shows "count_char newline (concat ls) =
           (if last (last ls) = newline then length ls else length ls - 1)"
proof -
  from assms(1) have ls: "ls = butlast ls @ [last ls]" by simp
  have a: "count_char newline (concat (butlast ls)) = length (butlast ls)"
    using assms(2,3) by (intro count_concat_terminated) (auto dest: in_set_butlastD)
  from assms(1,2) have l: "last ls \<noteq> []" "newline \<notin> set (butlast (last ls))" by simp_all
  have "concat ls = concat (butlast ls) @ last ls"
    by (subst ls) simp
  then have "count_char newline (concat ls) =
             count_char newline (concat (butlast ls)) + count_char newline (last ls)"
    by (simp add: count_char_def)
  with a count_line[OF l] assms(1) show ?thesis by (cases ls rule: rev_cases) auto
qed

lemma butlast_middle:
  assumes "ls \<noteq> []"
  shows "set (butlast ls) \<subseteq> set (butlast (pre @ ls @ post))"
    and "post \<noteq> [] \<Longrightarrow> set ls \<subseteq> set (butlast (pre @ ls @ post))"
  using assms by (auto simp: butlast_append dest: in_set_butlastD)

lemma map_of_dict_set:
  "k \<in> set (map fst d) \<Longrightarrow> map_of (dict_set d k v) k = Some v"
proof -
  assume k: "k \<in> set (map fst d)"
  have "map_of (map (\<lambda>(k', v'). if k' = k then (k', v) else (k', v')) d) k = Some v"
    using k by (induction d) auto
  with k show ?thesis by (simp add: dict_set_def)
qed

lemma decrement_item_cases:
  assumes "decrement_item obj k n = Inr obj'"
  shows "\<exists>d v c. obj = YMap d \<and> map_of d k = Some v \<and> int_value v = Some c \<and>
                 obj' = YMap (dict_set d k (YInt (c - n)))"
  using assms
  by (cases obj)
     (auto simp: decrement_item_def subscript_def minus_int_def int_value_def
           split: option.splits sum.splits yaml.splits)

lemma build_example_context_line:
  assumes "build_example cfg environ path t n0 c0 u0 s0 ot content = Inr ex"
  shows "\<exists>v c. subscript (tag_as_dict t) ''context_line'' = Inr v \<and> int_value v = Some c \<and>
               tag_context_line (tag ex) =
                 YInt (c - int (count_char newline (tag_as_string t)))"
proof -
  from assms obtain d' tg where dec: "decrement_item (tag_as_dict t) ''context_line''
        (int (count_char newline (tag_as_string t))) = Inr d'"
    and mk: "make_tag d' = Inr tg" and tg: "tag ex = tg"
    by (auto simp: build_example_def Let_def split: sum.splits)
  from decrement_item_cases[OF dec] obtain d v c where d: "tag_as_dict t = YMap d"
    and v: "map_of d ''context_line'' = Some v" and c: "int_value v = Some c"
    and d': "d' = YMap (dict_set d ''context_line''
                 (YInt (c - int (count_char newline (tag_as_string t)))))"
    by blast
  from v have "''context_line'' \<in> set (map fst d)"
    by (metis map_of_eq_None_iff option.distinct(1) set_map)
  from map_of_dict_set[OF this] mk d'
  have "tag_context_line tg = YInt (c - int (count_char newline (tag_as_string t)))"
    by (auto simp: make_tag_def field_or_def split: if_splits)
  with d v c tg show ?thesis by (simp add: subscript_def)
qed

lemma get_example_build:
  assumes "get_example cfg environ fs path file_name t = (Inr ex, opened, msgs)"
  shows "\<exists>n0 c0 u0 s0 content. fs path = Some content \<and>
           build_example cfg environ path t n0 c0 u0 s0 (get_object_type cfg file_name path) content
             = Inr ex"
  using assms
  by (auto simp: get_example_def read_text_def split: sum.splits option.splits)

text \<open>
  C7, as the code has it. When \<^verbatim>\<open>get_tag\<close> extracts a tag from a file and \<^verbatim>\<open>_get_example\<close>
  builds the record, the tag text consists of consecutive lines of the file, and the context
  line stored in the record is the context line declared in the tag minus the number of line
  ends in the tag text. That number is the number of lines the tag takes, unless the last
  line of the tag has no line end, where it is one less; and a tag that is followed by
  another line of the file has a line end on its last line.
\<close>

theorem context_line_moved_by_newlines:
  assumes "get_tag cfg fs path = Inr (Some t)"
      and "get_example cfg environ fs path file_name t = (Inr ex, opened, msgs)"
  shows "\<exists>content pre ls post v c.
           fs path = Some content \<and> readlines content = pre @ ls @ post \<and> ls \<noteq> [] \<and>
           tag_as_string t = concat ls \<and>
           subscript (tag_as_dict t) ''context_line'' = Inr v \<and> int_value v = Some c \<and>
           tag_context_line (tag ex) = YInt (c - int (count_char newline (tag_as_string t))) \<and>
           count_char newline (tag_as_string t) =
             (if last (last ls) = newline then length ls else length ls - 1) \<and>
           (post = [] \<or> last (last ls) = newline)"
proof -
  from assms(1) obtain content where content: "fs path = Some content"
    and tl: "get_tag_lines cfg (readlines content) = Inr (Some t)"
    by (auto simp: get_tag_def read_text_def split: option.splits)
  from get_tag_lines_text[OF tl] obtain pre ls post where lines: "readlines content = pre @ ls @ post"
    and ne: "ls \<noteq> []" and ts: "tag_as_string t = concat ls" by blast
  have ok: "\<forall>l \<in> set ls. l \<noteq> [] \<and> newline \<notin> set (butlast l)"
    using readlines_line[of _ content] lines by auto
  have ended: "\<forall>l \<in> set (butlast ls). last l = newline"
    using readlines_terminated[of _ content] butlast_middle(1)[OF ne, of pre post] lines by auto
  have cnt: "count_char newline (tag_as_string t) =
             (if last (last ls) = newline then length ls else length ls - 1)"
    unfolding ts using ne ok ended by (rule count_concat_lines)
  have fin: "post = [] \<or> last (last ls) = newline"
  proof (cases "post = []")
    case True
    then show ?thesis by simp
  next
    case False
    from butlast_middle(2)[OF ne False, of pre] ne lines
    have "last ls \<in> set (butlast (readlines content))" by auto
    then show ?thesis using readlines_terminated by blast
  qed
  from get_example_build[OF assms(2)] obtain n0 c0 u0 s0 content0 where
    "build_example cfg environ path t n0 c0 u0 s0 (get_object_type cfg file_name path) content0
       = Inr ex" by blast
  from build_example_context_line[OF this] obtain v c where
    "subscript (tag_as_dict t) ''context_line'' = Inr v" "int_value v = Some c"
    "tag_context_line (tag ex) = YInt (c - int (count_char newline (tag_as_string t)))"
    by blast
  with content lines ne ts cnt fin show ?thesis by blast
qed

lemma readlines_foo_java:
  "readlines foo_java =
     [''// Beam-playground:\<newline>'', ''//   '' @ foo_flow @ ''\<newline>'', ''class Foo {}\<newline>'']"
  by (simp add: foo_java_def foo_lines_def foo_flow_def newline_def)

lemma readlines_tag_last:
  "readlines foo_java_tag_last =
     [''class Foo {}\<newline>'', ''// Beam-playground:\<newline>'', ''//   '' @ foo_flow]"
  by (simp add: foo_java_tag_last_def foo_flow_def newline_def)

lemma get_tag_foo_java:
  "get_tag beam_config [''examples/foo.java'' \<mapsto> foo_java] ''examples/foo.java''
     = Inr (Some foo_java_tag)"
  unfolding get_tag_def read_text_def
  by (simp add: readlines_foo_java)
     (simp add: get_tag_lines_def format_line_def lstrip_def py_isspace_def newline_def tab_def
       foo_flow_def beam_config_def sample_load_def Let_def subscript_def foo_java_tag_def)

lemma get_tag_tag_last:
  "get_tag beam_config [''examples/foo.java'' \<mapsto> foo_java_tag_last] ''examples/foo.java''
     = Inr (Some tag_last_tag)"
  unfolding get_tag_def read_text_def
  by (simp add: readlines_tag_last)
     (simp add: get_tag_lines_def format_line_def lstrip_def py_isspace_def newline_def tab_def
       foo_flow_def beam_config_def sample_load_def Let_def subscript_def tag_last_tag_def)

lemmas eval_example = get_example_def build_example_def read_text_def subscript_def py_get_def
  dict_get_def foo_dict_def beam_config_def decrement_item_def minus_int_def dict_set_def
  make_tag_def tag_field_names_def field_or_def truthy_def validate_example_fields_def
  get_url_vcs_def get_object_type_def splitext_root_def rfind_def sep_def endswith_def
  lower_char_def count_char_def newline_def foo_flow_def Let_def foo_example_def foo_tag_def

lemma get_example_foo_java:
  "get_example beam_config Map.empty [''examples/foo.java'' \<mapsto> foo_java] ''examples/foo.java''
     ''foo.java'' foo_java_tag = (Inr foo_example, [''examples/foo.java''], [])"
  by (simp add: eval_example foo_java_tag_def foo_java_def foo_lines_def)

lemma get_example_tag_last:
  "get_example beam_config Map.empty [''examples/foo.java'' \<mapsto> foo_java_tag_last]
     ''examples/foo.java'' ''foo.java'' tag_last_tag
   = (Inr (foo_example\<lparr>tag := foo_tag\<lparr>tag_context_line := YInt 2\<rparr>\<rparr>), [''examples/foo.java''], [])"
  by (simp add: eval_example tag_last_tag_def foo_java_tag_last_def)

text \<open>
  The file \<^verbatim>\<open>foo.java\<close>: the tag declares the context line 3 and takes two lines.
\<close>

theorem context_line_moved_by_newlines_witness:
  "get_tag beam_config [''examples/foo.java'' \<mapsto> foo_java] ''examples/foo.java''
     = Inr (Some foo_java_tag) \<and>
   get_example beam_config Map.empty [''examples/foo.java'' \<mapsto> foo_java] ''examples/foo.java''
     ''foo.java'' foo_java_tag = (Inr foo_example, [''examples/foo.java''], []) \<and>
   subscript (tag_as_dict foo_java_tag) ''context_line'' = Inr (YInt 3) \<and>
   count_char newline (tag_as_string foo_java_tag) = 2 \<and>
   tag_context_line (tag foo_example) = YInt 1"
  using context_line_moved_by_newlines[OF get_tag_foo_java get_example_foo_java]
    get_tag_foo_java get_example_foo_java
  by (simp add: foo_java_tag_def subscript_def foo_dict_def count_char_def newline_def
      foo_flow_def foo_example_def foo_tag_def)

text \<open>
  The same tag as the last two lines of the file, after the code, the file not ending
  with a line end: the tag takes two lines of the file and declares the context line 3, and
  the record stores the context line 2.
\<close>

theorem context_line_tag_on_last_line:
  "readlines foo_java_tag_last =
     [''class Foo {}\<newline>'', ''// Beam-playground:\<newline>'', ''//   '' @ foo_flow] \<and>
   get_tag beam_config [''examples/foo.java'' \<mapsto> foo_java_tag_last] ''examples/foo.java''
     = Inr (Some tag_last_tag) \<and>
   tag_as_string tag_last_tag = concat [''// Beam-playground:\<newline>'', ''//   '' @ foo_flow] \<and>
   subscript (tag_as_dict tag_last_tag) ''context_line'' = Inr (YInt 3) \<and>
   get_example beam_config Map.empty [''examples/foo.java'' \<mapsto> foo_java_tag_last]
     ''examples/foo.java'' ''foo.java'' tag_last_tag
   = (Inr (foo_example\<lparr>tag := foo_tag\<lparr>tag_context_line := YInt 2\<rparr>\<rparr>), [''examples/foo.java''], [])"
  using readlines_tag_last get_tag_tag_last get_example_tag_last
  by (simp add: tag_last_tag_def subscript_def foo_dict_def)

end
